theory Spec2Isabelle
  imports Complex_Main
begin

section \<open>The arithmetic of \<open>double\<close>\<close>

text \<open>
  \<open>Carson_integral.cxx\<close> computes with \<open>double\<close> and \<open>complex<double>\<close>.  The carrier
  of \<open>double\<close> is a type variable: \<open>+\<close>, \<open>-\<close>, \<open>*\<close>, \<open>/\<close> and unary minus come from the
  syntactic classes, which carry no law, and the functions of the C++ mathematical
  library that the file calls are the fields of a record.  Statements about control
  flow, indices and the shape of the computed expressions are proved for every such
  arithmetic, IEEE 754 among them; statements about values are proved for the instance
  \<open>RL\<close>, where a \<open>double\<close> is a real number and every operation is exact (no rounding,
  no overflow, no NaN; \<open>ln 0\<close> is \<open>0\<close> there, so the point \<open>p = q = 0\<close> is outside what
  \<open>RL\<close> says about \<open>log\<close>).
\<close>

record 'a libm =
  lit :: "real \<Rightarrow> 'a"
  fsqrt :: "'a \<Rightarrow> 'a"
  fatan :: "'a \<Rightarrow> 'a"
  fatan2 :: "'a \<Rightarrow> 'a \<Rightarrow> 'a"
  fexp :: "'a \<Rightarrow> 'a"
  flog :: "'a \<Rightarrow> 'a"
  fcos :: "'a \<Rightarrow> 'a"
  fsin :: "'a \<Rightarrow> 'a"
  fpow :: "'a \<Rightarrow> nat \<Rightarrow> 'a"
  fisnan :: "'a \<Rightarrow> bool"
  fcsqrt :: "'a \<times> 'a \<Rightarrow> 'a \<times> 'a"

text \<open>\<open>lit L x\<close> is the \<open>double\<close> written as the literal \<open>x\<close>; \<open>cv L n\<close> is the
  conversion of the \<open>int\<close> \<open>n\<close>.  Every \<open>int\<close> of the program stays below \<open>2^31\<close>
  (the largest is \<open>99 * 99\<close> in \<open>prod_xsq\<close> and \<open>10000\<close> in \<open>CI\<close>), so \<open>int\<close>
  arithmetic is modelled without wrap-around.\<close>

definition cv :: "'a libm \<Rightarrow> int \<Rightarrow> 'a" where
  "cv L n = lit L (real_of_int n)"

text \<open>The angle of the point \<open>(x, y)\<close>, in \<open>(-pi, pi]\<close>, as \<open>atan2(y, x)\<close> of
  the C library returns it.\<close>

definition atan2 :: "real \<Rightarrow> real \<Rightarrow> real" where
  "atan2 y x =
     (if 0 < x then arctan (y / x)
      else if x < 0 then (if 0 \<le> y then arctan (y / x) + pi else arctan (y / x) - pi)
      else if 0 < y then pi / 2
      else if y < 0 then - (pi / 2)
      else 0)"

definition RL :: "real libm" where
  "RL = \<lparr> lit = (\<lambda>x. x), fsqrt = sqrt, fatan = arctan, fatan2 = atan2,
          fexp = exp, flog = ln, fcos = cos, fsin = sin,
          fpow = (\<lambda>x n. x ^ n), fisnan = (\<lambda>x. False),
          fcsqrt = (\<lambda>z. (Re (csqrt (Complex (fst z) (snd z))),
                           Im (csqrt (Complex (fst z) (snd z))))) \<rparr>"

section \<open>Global constants and tables\<close>

definition tworoot :: "('a::times) libm \<Rightarrow> 'a" where
  "tworoot L = fsqrt L (lit L 2)"

definition pi_c :: "('a::times) libm \<Rightarrow> 'a" where
  "pi_c L = lit L 4 * fatan L (lit L 1)"

definition Euler :: real where
  "Euler = 577215664901532860606512 / 10 ^ 24"

definition gamma_e :: "'a libm \<Rightarrow> 'a" where
  "gamma_e L = fexp L (lit L Euler)"

definition Nf :: nat where "Nf = 150"
definition Nsi :: nat where "Nsi = 101"
definition Ne :: nat where "Ne = 50"
definition Ns :: nat where "Ns = 8"

text \<open>The six global arrays.  An array is a map from indices to the values written so
  far: \<open>None\<close> at an index says that no statement of the program has assigned the
  element.  The arrays have static storage duration, so an element that was never
  assigned holds \<open>0.0\<close>, which is what \<open>val\<close> reads.\<close>

record 'a tables =
  gF :: "nat \<rightharpoonup> 'a"
  gSI :: "nat \<rightharpoonup> 'a"
  gPX :: "nat \<rightharpoonup> 'a"
  gb :: "nat \<rightharpoonup> 'a"
  gc :: "nat \<rightharpoonup> 'a"
  gd :: "nat \<rightharpoonup> 'a"

definition G0 :: "'a tables" where
  "G0 = \<lparr> gF = Map.empty, gSI = Map.empty, gPX = Map.empty,
          gb = Map.empty, gc = Map.empty, gd = Map.empty \<rparr>"

definition val :: "'a libm \<Rightarrow> (nat \<rightharpoonup> 'a) \<Rightarrow> nat \<Rightarrow> 'a" where
  "val L m i = (case m i of None \<Rightarrow> lit L 0 | Some v \<Rightarrow> v)"

definition sum_inv :: "('a::{plus,minus,times,inverse}) libm \<Rightarrow> nat \<Rightarrow> 'a" where
  "sum_inv L m =
     fold (\<lambda>mx sum. sum + lit L 1 / cv L (int mx)) [2..<m + 1]
       (lit L 1 - lit L 1 / (lit L 2 * cv L (int m)))"

definition prod_xsq :: "('a::times) libm \<Rightarrow> nat \<Rightarrow> 'a" where
  "prod_xsq L m =
     fold (\<lambda>mx prod. prod * cv L (int ((2 * mx + 1) * (2 * mx + 1)))) [1..<m div 2]
       (cv L (int m))"

text \<open>The bodies of the three loops of \<open>Factorials\<close>.\<close>

definition F_step :: "('a::times) libm \<Rightarrow> nat \<Rightarrow> 'a tables \<Rightarrow> 'a tables" where
  "F_step L n H = H\<lparr> gF := (gF H)(n \<mapsto> cv L (int n) * val L (gF H) (n - 1)) \<rparr>"

definition SI_step ::
  "('a::{plus,minus,times,inverse}) libm \<Rightarrow> nat \<Rightarrow> 'a tables \<Rightarrow> 'a tables" where
  "SI_step L n H = H\<lparr> gSI := (gSI H)(n \<mapsto> sum_inv L n) \<rparr>"

definition PX_step :: "('a::times) libm \<Rightarrow> nat \<Rightarrow> 'a tables \<Rightarrow> 'a tables" where
  "PX_step L n H = H\<lparr> gPX := (gPX H)(n \<mapsto> prod_xsq L n) \<rparr>"

text \<open>The third loop advances \<open>n\<close> by \<open>2\<close> from \<open>1\<close> while \<open>n < Nsi + 1\<close>.\<close>

definition Factorials :: "('a::{plus,minus,times,inverse}) libm \<Rightarrow> 'a tables \<Rightarrow> 'a tables" where
  "Factorials L G =
     (let G1 = G\<lparr> gF := (gF G)(0 \<mapsto> lit L 1) \<rparr>;
          G2 = fold (F_step L) [1..<Nf] G1;
          G3 = fold (SI_step L) [2..<Nsi] G2
      in fold (PX_step L) (map (\<lambda>k. 1 + 2 * k) [0..<(Nsi + 1) div 2]) G3)"

definition Coeffs_step ::
  "('a::{plus,minus,times,inverse}) libm \<Rightarrow> nat \<Rightarrow> 'a tables \<Rightarrow> 'a tables" where
  "Coeffs_step L n H =
     (let nsign = fpow L (lit L (- 1)) ((n + 1) div 2 mod 2);
          H1 = H\<lparr> gb := (gb H)(n \<mapsto>
                 nsign * val L (gb H) (n - 2) / (cv L (int n) * (cv L (int n) + lit L 2))) \<rparr>;
          H2 = H1\<lparr> gc := (gc H1)(n \<mapsto>
                 val L (gc H1) (n - 2) + lit L 1 / cv L (int n) + lit L 1 / cv L (int (n + 2))) \<rparr>
      in H2\<lparr> gd := (gd H2)(n \<mapsto> pi_c L * val L (gb H2) n / lit L 4) \<rparr>)"

definition Coeffs :: "('a::{plus,minus,times,inverse}) libm \<Rightarrow> 'a tables \<Rightarrow> 'a tables" where
  "Coeffs L G =
     (let G1 = G\<lparr> gb := (gb G)(1 \<mapsto> tworoot L / lit L 6) \<rparr>;
          G2 = G1\<lparr> gb := (gb G1)(2 \<mapsto> lit L 1 / lit L 16) \<rparr>;
          G3 = G2\<lparr> gc := (gc G2)(2 \<mapsto> lit L (13659315 / 10 ^ 7)) \<rparr>;
          G4 = G3\<lparr> gd := (gd G3)(2 \<mapsto> pi_c L * val L (gb G3) 2 / lit L 4) \<rparr>
      in fold (Coeffs_step L) [3..<Ne] G4)"

text \<open>The published sign, which the source keeps in a comment and does not execute.\<close>

definition published_sign :: "'a libm \<Rightarrow> nat \<Rightarrow> 'a" where
  "published_sign L n = fpow L (lit L (- 1)) ((n - 1) div 4 mod 2)"

text \<open>\<open>main\<close> calls \<open>Factorials\<close> and \<open>Coeffs\<close> on the zero-initialised arrays before
  any evaluator runs.\<close>

definition startup :: "('a::{plus,minus,times,inverse}) libm \<Rightarrow> 'a tables" where
  "startup L = Coeffs L (Factorials L G0)"

section \<open>Faults, diagnostics and array reads\<close>

text \<open>What \<open>J\<close> writes to \<open>cerr\<close> before \<open>exit(0)\<close> is a list of items (the separators
  \<open>sp\<close> and \<open>nl\<close> are left out).  A run ends in \<open>NanExit\<close> at \<open>exit(0)\<close>, and in
  \<open>OutOfBounds a i\<close> where it reads element \<open>i\<close> of the array \<open>a\<close> at or past its
  declared size.\<close>

datatype arr = A_F | A_SI | A_PX | A_rp | A_rhp | A_cthp | A_sthp

datatype 'a item = S string | I int | D 'a

datatype 'a fault = NanExit "'a item list" | OutOfBounds arr nat

text \<open>C++ gives no meaning to a read past the end of an array.  The parameter \<open>M\<close> says
  what such a read does: \<open>M a i = None\<close> stops the run with \<open>OutOfBounds a i\<close>, and
  \<open>M a i = Some v\<close> is a machine that finds the value \<open>v\<close> at that address and goes on.
  \<open>strict\<close> stops at every such read.\<close>

type_synonym 'a beyond = "arr \<Rightarrow> nat \<Rightarrow> 'a option"

definition strict :: "'a beyond" where
  "strict = (\<lambda>a i. None)"

definition rd ::
  "'a beyond \<Rightarrow> arr \<Rightarrow> 'a list \<Rightarrow> nat \<Rightarrow> ('a \<Rightarrow> 'a fault + 'r) \<Rightarrow> 'a fault + 'r" where
  "rd M a xs i k =
     (if i < length xs then k (xs ! i)
      else case M a i of None \<Rightarrow> Inl (OutOfBounds a i) | Some v \<Rightarrow> k v)"

definition rdg ::
  "'a libm \<Rightarrow> 'a beyond \<Rightarrow> arr \<Rightarrow> nat \<Rightarrow> (nat \<rightharpoonup> 'a) \<Rightarrow> nat \<Rightarrow> ('a \<Rightarrow> 'a fault + 'r)
     \<Rightarrow> 'a fault + 'r" where
  "rdg L M a sz m i k =
     (if i < sz then k (val L m i)
      else case M a i of None \<Rightarrow> Inl (OutOfBounds a i) | Some v \<Rightarrow> k v)"

text \<open>\<open>for (int ns = lo; ns < hi; ++ns)\<close> with a body that may end the run.\<close>

primrec forM :: "nat list \<Rightarrow> (nat \<Rightarrow> 's \<Rightarrow> 'e + 's) \<Rightarrow> 's \<Rightarrow> 'e + 's" where
  "forM [] body s = Inr s"
| "forM (i # is) body s = (case body i s of Inl e \<Rightarrow> Inl e | Inr s' \<Rightarrow> forM is body s')"

text \<open>\<open>thn m k\<close> goes on with \<open>k\<close> after \<open>m\<close>, unless \<open>m\<close> ended the run.\<close>

definition thn :: "'e + 's \<Rightarrow> ('s \<Rightarrow> 'e + 't) \<Rightarrow> 'e + 't" where
  "thn m k = (case m of Inl e \<Rightarrow> Inl e | Inr s \<Rightarrow> k s)"

section \<open>\<open>J\<close>: Carson's series\<close>

text \<open>The body of the first loop (lines 113 to 128); the state is
  \<open>(s2, s2p, nf, nsign)\<close>.  The diagnostic shows \<open>nsign\<close> and \<open>nf\<close> as they are after the
  update, and reads \<open>F[nf]\<close> and \<open>F[nf + 1]\<close> at the new \<open>nf\<close>.\<close>

definition J_s2 ::
  "('a::{plus,minus,times,inverse}) libm \<Rightarrow> 'a beyond \<Rightarrow> 'a tables \<Rightarrow> 'a list \<Rightarrow> 'a list \<Rightarrow> 'a list
     \<Rightarrow> nat \<Rightarrow> 'a \<times> 'a \<times> nat \<times> int \<Rightarrow> 'a fault + 'a \<times> 'a \<times> nat \<times> int" where
  "J_s2 L M G rhp cthp sthp ns st =
     (case st of (s2, s2p, nf, nsign) \<Rightarrow>
        let np = 2 + 4 * ns in
        rdg L M A_F Nf (gF G) nf (\<lambda>f0. rdg L M A_F Nf (gF G) (nf + 1) (\<lambda>f1.
        rd M A_rhp rhp np (\<lambda>x. rd M A_cthp cthp np (\<lambda>cs. rd M A_sthp sthp np (\<lambda>sn.
          let s2' = s2 + cv L nsign * (lit L 1 / (f0 * f1)) * x * cs;
              s2p' = s2p + cv L nsign * (lit L 1 / (f0 * f1)) * x * sn;
              nf' = nf + 2;
              nsign' = - nsign
          in if fisnan L s2' \<or> fisnan L s2p'
             then rdg L M A_F Nf (gF G) nf' (\<lambda>g0. rdg L M A_F Nf (gF G) (nf' + 1) (\<lambda>g1.
                    Inl (NanExit [S ''2 2p : '', I (int ns), I (int np), D x, D cs, D sn,
                                  I nsign', I (int nf'), D g0, D g1, D s2', D s2p'])))
             else Inr (s2', s2p', nf', nsign')))))))"

text \<open>The body of the second loop (lines 134 to 146); the state is \<open>(s4, s4p, nf, nsign)\<close>.\<close>

definition J_s4 ::
  "('a::{plus,minus,times,inverse}) libm \<Rightarrow> 'a beyond \<Rightarrow> 'a tables \<Rightarrow> 'a list \<Rightarrow> 'a list \<Rightarrow> 'a list
     \<Rightarrow> nat \<Rightarrow> 'a \<times> 'a \<times> nat \<times> int \<Rightarrow> 'a fault + 'a \<times> 'a \<times> nat \<times> int" where
  "J_s4 L M G rhp cthp sthp ns st =
     (case st of (s4, s4p, nf, nsign) \<Rightarrow>
        let np = 4 + 4 * ns in
        rdg L M A_F Nf (gF G) nf (\<lambda>f0. rdg L M A_F Nf (gF G) (nf + 1) (\<lambda>f1.
        rd M A_rhp rhp np (\<lambda>x. rd M A_cthp cthp np (\<lambda>cs. rd M A_sthp sthp np (\<lambda>sn.
          let s4' = s4 + cv L nsign * (lit L 1 / (f0 * f1)) * x * cs;
              s4p' = s4p + cv L nsign * (lit L 1 / (f0 * f1)) * x * sn;
              nf' = nf + 2;
              nsign' = - nsign
          in if fisnan L s4' \<or> fisnan L s4p'
             then Inl (NanExit [S ''4 4p : '', I (int ns), I (int np)])
             else Inr (s4', s4p', nf', nsign')))))))"

text \<open>The bodies of the third and fourth loops (lines 151 to 163 and 168 to 180) differ in
  the offset of \<open>np\<close> (\<open>1\<close> and \<open>3\<close>) and in the label they print (\<open>g1\<close> and \<open>g3\<close>);
  the state is \<open>(sg, nsign, nden)\<close>.\<close>

definition J_sg_odd ::
  "('a::{plus,minus,times,inverse}) libm \<Rightarrow> 'a beyond \<Rightarrow> 'a tables \<Rightarrow> 'a list \<Rightarrow> 'a list
     \<Rightarrow> nat \<Rightarrow> string \<Rightarrow> nat \<Rightarrow> 'a \<times> int \<times> nat \<Rightarrow> 'a fault + 'a \<times> int \<times> nat" where
  "J_sg_odd L M G rp cthp off label ns st =
     (case st of (sg, nsign, nden) \<Rightarrow>
        let np = off + 4 * ns in
        rdg L M A_PX (Nsi + 1) (gPX G) nden (\<lambda>den.
        rd M A_rp rp np (\<lambda>x. rd M A_cthp cthp np (\<lambda>cs.
          let sg' = sg + cv L nsign * x * cs / den;
              nsign' = - nsign;
              nden' = nden + 4
          in if fisnan L sg'
             then Inl (NanExit [S label, I (int ns), I (int np)])
             else Inr (sg', nsign', nden')))))"

text \<open>The bodies of the fifth and sixth loops (lines 186 to 200 and 206 to 220) differ in
  the offset of \<open>np\<close> (\<open>2\<close> and \<open>4\<close>) and in the label (\<open>g2\<close> and \<open>g4\<close>); the state is
  \<open>(sg, nsign, nfrac, nf)\<close>.\<close>

definition J_sg_even ::
  "('a::{plus,minus,times,inverse}) libm \<Rightarrow> 'a beyond \<Rightarrow> 'a tables \<Rightarrow> 'a list \<Rightarrow> 'a list
     \<Rightarrow> nat \<Rightarrow> string \<Rightarrow> nat \<Rightarrow> 'a \<times> int \<times> nat \<times> nat \<Rightarrow> 'a fault + 'a \<times> int \<times> nat \<times> nat" where
  "J_sg_even L M G rhp cthp off label ns st =
     (case st of (sg, nsign, nfrac, nf) \<Rightarrow>
        let np = off + 4 * ns in
        rdg L M A_SI Nsi (gSI G) nfrac (\<lambda>num.
        rdg L M A_F Nf (gF G) nf (\<lambda>f0. rdg L M A_F Nf (gF G) (nf + 1) (\<lambda>f1.
        rd M A_rhp rhp np (\<lambda>x. rd M A_cthp cthp np (\<lambda>cs.
          let sg' = sg + cv L nsign * num * (lit L 1 / (f0 * f1)) * x * cs;
              nsign' = - nsign;
              nfrac' = nfrac + 2;
              nf' = nf + 2
          in if fisnan L sg'
             then Inl (NanExit [S label, I (int ns), I (int np)])
             else Inr (sg', nsign', nfrac', nf')))))))"

definition J_P ::
  "('a::{plus,minus,times,inverse}) libm \<Rightarrow> 'a \<Rightarrow> 'a \<Rightarrow> 'a \<Rightarrow> 'a \<Rightarrow> 'a \<Rightarrow> 'a \<Rightarrow> 'a \<Rightarrow> 'a \<Rightarrow> 'a" where
  "J_P L lnr th s2 s2p s4 sg1 sg2 sg3 =
     (pi_c L / lit L 8) * (lit L 1 - s4)
       + lit L (1 / 2) * (flog L (lit L 2 / gamma_e L) - lnr) * s2
       + lit L (1 / 2) * th * s2p
       - sg1 / tworoot L + lit L (1 / 2) * sg2 + sg3 / tworoot L"

definition J_Q ::
  "('a::{plus,minus,times,inverse}) libm \<Rightarrow> 'a \<Rightarrow> 'a \<Rightarrow> 'a \<Rightarrow> 'a \<Rightarrow> 'a \<Rightarrow> 'a \<Rightarrow> 'a \<Rightarrow> 'a \<Rightarrow> 'a" where
  "J_Q L lnr th s2 s4 s4p sg1 sg3 sg4 =
     lit L (1 / 4) + lit L (1 / 2) * (flog L (lit L 2 / gamma_e L) - lnr) * (lit L 1 - s4)
       - lit L (1 / 2) * th * s4p
       + sg1 / tworoot L - (pi_c L / lit L 8) * s2 + sg3 / tworoot L - lit L (1 / 2) * sg4"

text \<open>The first loop of \<open>J\<close> fills the four local arrays at the indices \<open>0..31\<close>; they
  are the lists of these \<open>32\<close> values.  The six accumulation loops follow in the order of
  the source, each run to its end or to the first fault.\<close>

definition J ::
  "('a::{plus,minus,times,inverse}) libm \<Rightarrow> 'a beyond \<Rightarrow> 'a tables \<Rightarrow> 'a \<Rightarrow> 'a \<Rightarrow> 'a fault + 'a \<times> 'a" where
  "J L M G p q =
     (let r = fsqrt L (p * p + q * q);
          th = fatan2 L q p;
          rh = lit L (1 / 2) * r;
          lnr = flog L r;
          rp = map (\<lambda>n. fpow L r n) [0..<32];
          rhp = map (\<lambda>n. fpow L rh n) [0..<32];
          cthp = map (\<lambda>n. fcos L (cv L (int n) * th)) [0..<32];
          sthp = map (\<lambda>n. fsin L (cv L (int n) * th)) [0..<32]
      in
      thn (forM [0..<Ns] (J_s2 L M G rhp cthp sthp) (lit L 0, lit L 0, 1, 1))
        (\<lambda>(s2, s2p, nf2, ng2).
      thn (forM [0..<Ns] (J_s4 L M G rhp cthp sthp) (lit L 0, lit L 0, 2, 1))
        (\<lambda>(s4, s4p, nf4, ng4).
      thn (forM [0..<Ns] (J_sg_odd L M G rp cthp 1 ''g1 : '') (lit L 0, 1, 3))
        (\<lambda>(sg1, ng1, nd1).
      thn (forM [0..<Ns] (J_sg_odd L M G rp cthp 3 ''g3 : '') (lit L 0, 1, 5))
        (\<lambda>(sg3, ng3, nd3).
      thn (forM [0..<Ns] (J_sg_even L M G rhp cthp 2 ''g2 : '') (lit L 0, 1, 2, 1))
        (\<lambda>(sg2, ng5, nr5, nf5).
      thn (forM [0..<Ns] (J_sg_even L M G rhp cthp 4 ''g4 : '') (lit L 0, 1, 3, 2))
        (\<lambda>(sg4, ng6, nr6, nf6).
      Inr (J_P L lnr th s2 s2p s4 sg1 sg2 sg3,
           J_Q L lnr th s2 s4 s4p sg1 sg3 sg4))))))))"

section \<open>\<open>Je\<close>: the series of the EMTP Theory Book\<close>

text \<open>\<open>b\<close>, \<open>c\<close> and \<open>d\<close> read the global arrays; every index is a literal below
  \<open>Ne = 50\<close>.  \<open>ap\<close>, \<open>cthp\<close> and \<open>sthp\<close> are the local arrays of \<open>32\<close> elements,
  read at literal indices up to \<open>25\<close>.\<close>

definition Je_P ::
  "('a::{plus,minus,times,inverse}) libm \<Rightarrow> (nat \<Rightarrow> 'a) \<Rightarrow> (nat \<Rightarrow> 'a) \<Rightarrow> (nat \<Rightarrow> 'a) \<Rightarrow> 'a \<Rightarrow> 'a
     \<Rightarrow> 'a list \<Rightarrow> 'a list \<Rightarrow> 'a list \<Rightarrow> 'a" where
  "Je_P L b c d lna th ap cthp sthp =
       pi_c L / lit L 8
       - b 1 * ap ! 1 * cthp ! 1
       + b 2 * ((c 2 - lna) * ap ! 2 * cthp ! 2 + th * ap ! 2 * sthp ! 2)
       + b 3 * ap ! 3 * cthp ! 3
       - d 4 * ap ! 4 * cthp ! 4
       - b 5 * ap ! 5 * cthp ! 5
       + b 6 * ((c 6 - lna) * ap ! 6 * cthp ! 6 + th * ap ! 6 * sthp ! 6)
       + b 7 * ap ! 7 * cthp ! 7
       - d 8 * ap ! 8 * cthp ! 8
       - b 9 * ap ! 9 * cthp ! 9
       + b 10 * ((c 10 - lna) * ap ! 10 * cthp ! 10 + th * ap ! 10 * sthp ! 10)
       + b 11 * ap ! 11 * cthp ! 11
       - d 12 * ap ! 12 * cthp ! 12
       - b 13 * ap ! 13 * cthp ! 13
       + b 14 * ((c 14 - lna) * ap ! 14 * cthp ! 14 + th * ap ! 14 * sthp ! 14)
       + b 15 * ap ! 15 * cthp ! 15
       - d 16 * ap ! 16 * cthp ! 16
       - b 17 * ap ! 17 * cthp ! 17
       + b 18 * ((c 18 - lna) * ap ! 18 * cthp ! 18 + th * ap ! 18 * sthp ! 18)
       + b 19 * ap ! 19 * cthp ! 19
       - d 20 * ap ! 20 * cthp ! 20
       - b 21 * ap ! 21 * cthp ! 21
       + b 22 * ((c 22 - lna) * ap ! 22 * cthp ! 22 + th * ap ! 22 * sthp ! 22)
       + b 23 * ap ! 23 * cthp ! 23
       - d 24 * ap ! 24 * cthp ! 24
       - b 25 * ap ! 25 * cthp ! 25"

definition Je_Q ::
  "('a::{plus,minus,times,inverse}) libm \<Rightarrow> (nat \<Rightarrow> 'a) \<Rightarrow> (nat \<Rightarrow> 'a) \<Rightarrow> (nat \<Rightarrow> 'a) \<Rightarrow> 'a \<Rightarrow> 'a
     \<Rightarrow> 'a list \<Rightarrow> 'a list \<Rightarrow> 'a list \<Rightarrow> 'a" where
  "Je_Q L b c d lna th ap cthp sthp =
       (lit L 1 / lit L 2) * (lit L (6159315 / 10 ^ 7) - lna)
       + b 1 * ap ! 1 * cthp ! 1
       - d 2 * ap ! 2 * cthp ! 2
       + b 3 * ap ! 3 * cthp ! 3
       - b 4 * ((c 4 - lna) * ap ! 4 * cthp ! 4 + th * ap ! 4 * sthp ! 4)
       + b 5 * ap ! 5 * cthp ! 5
       - d 6 * ap ! 6 * cthp ! 6
       + b 7 * ap ! 7 * cthp ! 7
       - b 8 * ((c 8 - lna) * ap ! 8 * cthp ! 8 + th * ap ! 8 * sthp ! 8)
       + b 9 * ap ! 9 * cthp ! 9
       - d 10 * ap ! 10 * cthp ! 10
       + b 11 * ap ! 11 * cthp ! 11
       - b 12 * ((c 12 - lna) * ap ! 12 * cthp ! 12 + th * ap ! 12 * sthp ! 12)
       + b 13 * ap ! 13 * cthp ! 13
       - d 14 * ap ! 14 * cthp ! 14
       + b 15 * ap ! 15 * cthp ! 15
       - b 16 * ((c 16 - lna) * ap ! 16 * cthp ! 16 + th * ap ! 16 * sthp ! 16)
       + b 17 * ap ! 17 * cthp ! 17
       - d 18 * ap ! 18 * cthp ! 18
       + b 19 * ap ! 19 * cthp ! 19
       - b 20 * ((c 20 - lna) * ap ! 20 * cthp ! 20 + th * ap ! 20 * sthp ! 20)
       + b 21 * ap ! 21 * cthp ! 21
       - d 22 * ap ! 22 * cthp ! 22
       + b 23 * ap ! 23 * cthp ! 23"

text \<open>\<open>Je\<close> returns the lines it wrote to \<open>cerr\<close> while it filled its tables, and the
  pair \<open>(P, Q)\<close>.  It contains no \<open>exit\<close>.\<close>

definition Je ::
  "('a::{plus,minus,times,inverse}) libm \<Rightarrow> 'a tables \<Rightarrow> 'a \<Rightarrow> 'a \<Rightarrow> 'a item list list \<times> 'a \<times> 'a" where
  "Je L G p q =
     (let a = fsqrt L (p * p + q * q);
          th = fatan2 L q p;
          lna = flog L a;
          ap = map (\<lambda>n. fpow L a n) [0..<32];
          cthp = map (\<lambda>n. fcos L (cv L (int n) * th)) [0..<32];
          sthp = map (\<lambda>n. fsin L (cv L (int n) * th)) [0..<32];
          err = concat (map (\<lambda>n.
                  if fisnan L (ap ! n) \<or> fisnan L (cthp ! n) \<or> fisnan L (sthp ! n)
                  then [[S ''Je : '', I (int n), D a, D (ap ! n)]] else []) [0..<32])
      in (err,
          Je_P L (val L (gb G)) (val L (gc G)) (val L (gd G)) lna th ap cthp sthp,
          Je_Q L (val L (gb G)) (val L (gc G)) (val L (gd G)) lna th ap cthp sthp))"

section \<open>\<open>CI\<close>: Simpson's rule on the integral\<close>

text \<open>A \<open>complex<double>\<close> is the pair of its real and imaginary part.  The mixed
  operators of the C++ library act on the parts: adding or subtracting a \<open>double\<close> changes
  the real part, multiplying by a \<open>double\<close> multiplies both.\<close>

definition ci :: "'a libm \<Rightarrow> 'a \<times> 'a" where
  "ci L = (lit L 0, lit L 1)"

definition d_plus_c :: "('a::plus) \<Rightarrow> 'a \<times> 'a \<Rightarrow> 'a \<times> 'a" where
  "d_plus_c x z = (fst z + x, snd z)"

definition c_minus_d :: "('a::minus) \<times> 'a \<Rightarrow> 'a \<Rightarrow> 'a \<times> 'a" where
  "c_minus_d z x = (fst z - x, snd z)"

definition c_times_d :: "('a::times) \<times> 'a \<Rightarrow> 'a \<Rightarrow> 'a \<times> 'a" where
  "c_times_d z x = (fst z * x, snd z * x)"

definition c_plus_c :: "('a::plus) \<times> 'a \<Rightarrow> 'a \<times> 'a \<Rightarrow> 'a \<times> 'a" where
  "c_plus_c z w = (fst z + fst w, snd z + snd w)"

text \<open>One pass of the loop of \<open>CI\<close> at the index \<open>i\<close>.  The two lines that every pass
  writes to \<open>cout\<close> for plotting do not enter the sum and are left out.\<close>

definition CI_step ::
  "('a::{plus,minus,times,inverse,uminus}) libm \<Rightarrow> 'a \<Rightarrow> 'a \<Rightarrow> nat \<Rightarrow> 'a \<Rightarrow> nat \<Rightarrow> 'a \<times> 'a \<Rightarrow> 'a \<times> 'a" where
  "CI_step L p q N dmu i mu_sum =
     (let ifac = (if i = 0 \<or> i = N then lit L 1 else cv L (int (2 * (i mod 2) + 2)));
          mu = cv L (int i) * dmu;
          arg = c_times_d
                  (c_times_d (c_minus_d (fcsqrt L (d_plus_c (mu * mu) (ci L))) mu)
                     (fexp L (- p * mu)))
                  (fcos L (q * mu))
      in c_plus_c mu_sum (c_times_d arg ifac))"

definition CI :: "('a::{plus,minus,times,inverse,uminus}) libm \<Rightarrow> 'a \<Rightarrow> 'a \<Rightarrow> 'a \<times> 'a" where
  "CI L p q =
     (let N = 10000;
          mu_max = lit L 10;
          dmu = mu_max / cv L (int N);
          mu_sum = fold (CI_step L p q N dmu) [0..<N + 1] (lit L 0, lit L 0)
      in c_times_d mu_sum (dmu / lit L 3))"

section \<open>An arithmetic with a not-a-number\<close>

text \<open>\<open>DL\<close> is a second instance: the real numbers and one more value \<open>NaN\<close>, which
  every operation hands on as IEEE 754 does (\<open>pow(x, 0)\<close> is \<open>1\<close> for every \<open>x\<close>, also
  for a NaN).  Infinities and rounding are not part of it; it serves to run the NaN
  checks of \<open>J\<close> and \<open>Je\<close> on an input that is a NaN, which \<open>strtod\<close> returns for the
  argument \<open>nan\<close>.\<close>

datatype dbl = Fin real | NaN

definition lift1 :: "(real \<Rightarrow> real) \<Rightarrow> dbl \<Rightarrow> dbl" where
  "lift1 f x = (case x of Fin a \<Rightarrow> Fin (f a) | NaN \<Rightarrow> NaN)"

definition lift2 :: "(real \<Rightarrow> real \<Rightarrow> real) \<Rightarrow> dbl \<Rightarrow> dbl \<Rightarrow> dbl" where
  "lift2 f x y = (case x of Fin a \<Rightarrow> (case y of Fin b \<Rightarrow> Fin (f a b) | NaN \<Rightarrow> NaN) | NaN \<Rightarrow> NaN)"

instantiation dbl :: "{plus,minus,times,inverse,uminus}"
begin
definition plus_dbl :: "dbl \<Rightarrow> dbl \<Rightarrow> dbl" where "plus_dbl = lift2 (+)"
definition minus_dbl :: "dbl \<Rightarrow> dbl \<Rightarrow> dbl" where "minus_dbl = lift2 (-)"
definition times_dbl :: "dbl \<Rightarrow> dbl \<Rightarrow> dbl" where "times_dbl = lift2 (*)"
definition divide_dbl :: "dbl \<Rightarrow> dbl \<Rightarrow> dbl" where "divide_dbl = lift2 (/)"
definition inverse_dbl :: "dbl \<Rightarrow> dbl" where "inverse_dbl = lift1 inverse"
definition uminus_dbl :: "dbl \<Rightarrow> dbl" where "uminus_dbl = lift1 uminus"
instance ..
end

definition DL :: "dbl libm" where
  "DL = \<lparr> lit = Fin, fsqrt = lift1 sqrt, fatan = lift1 arctan, fatan2 = lift2 atan2,
          fexp = lift1 exp, flog = lift1 ln, fcos = lift1 cos, fsin = lift1 sin,
          fpow = (\<lambda>x n. if n = 0 then Fin 1 else lift1 (\<lambda>a. a ^ n) x),
          fisnan = (\<lambda>x. x = NaN),
          fcsqrt = (\<lambda>z. case z of
                      (Fin x, Fin y) \<Rightarrow> (Fin (Re (csqrt (Complex x y))), Fin (Im (csqrt (Complex x y))))
                    | _ \<Rightarrow> (NaN, NaN)) \<rparr>"

section \<open>An arithmetic with infinities\<close>

text \<open>\<open>XL\<close> is a third instance: the real numbers, the two infinities and a NaN.  A
  result of \<open>+\<close>, \<open>*\<close>, \<open>/\<close>, \<open>exp\<close> or \<open>pow\<close> whose magnitude is above the largest
  \<open>double\<close>, \<open>(2 - 2^-52) * 2^1023\<close>, is the infinity of its sign, and the operations
  treat infinities and NaN as IEEE 754 and the C library do (\<open>inf - inf\<close>, \<open>0 * inf\<close>,
  \<open>0 / 0\<close>, \<open>inf / inf\<close> and the cosine and sine of an infinity are NaN).  Rounding is
  left out, and so is the sign of zero: a zero divisor counts as \<open>+0\<close>.  \<open>XL\<close> serves to run
  \<open>J\<close> on an input whose powers overflow.\<close>

datatype xdbl = Num real | PInf | MInf | Nan

definition dbl_max :: real where
  "dbl_max = (2 ^ 53 - 1) * 2 ^ 971"

definition ovf :: "real \<Rightarrow> xdbl" where
  "ovf r = (if dbl_max < r then PInf else if r < - dbl_max then MInf else Num r)"

fun xuminus :: "xdbl \<Rightarrow> xdbl" where
  "xuminus (Num a) = Num (- a)"
| "xuminus PInf = MInf"
| "xuminus MInf = PInf"
| "xuminus Nan = Nan"

fun xplus :: "xdbl \<Rightarrow> xdbl \<Rightarrow> xdbl" where
  "xplus (Num a) (Num b) = ovf (a + b)"
| "xplus Nan y = Nan"
| "xplus x Nan = Nan"
| "xplus PInf MInf = Nan"
| "xplus MInf PInf = Nan"
| "xplus PInf y = PInf"
| "xplus x PInf = PInf"
| "xplus MInf y = MInf"
| "xplus x MInf = MInf"

fun xtimes :: "xdbl \<Rightarrow> xdbl \<Rightarrow> xdbl" where
  "xtimes (Num a) (Num b) = ovf (a * b)"
| "xtimes Nan y = Nan"
| "xtimes x Nan = Nan"
| "xtimes (Num a) y = (if a = 0 then Nan else if 0 < a then y else xuminus y)"
| "xtimes x (Num b) = (if b = 0 then Nan else if 0 < b then x else xuminus x)"
| "xtimes PInf y = y"
| "xtimes MInf y = xuminus y"

fun xdivide :: "xdbl \<Rightarrow> xdbl \<Rightarrow> xdbl" where
  "xdivide (Num a) (Num b) =
     (if b = 0 then (if a = 0 then Nan else if 0 < a then PInf else MInf) else ovf (a / b))"
| "xdivide Nan y = Nan"
| "xdivide x Nan = Nan"
| "xdivide (Num a) y = Num 0"
| "xdivide x (Num b) = (if 0 \<le> b then x else xuminus x)"
| "xdivide x y = Nan"

instantiation xdbl :: "{plus,minus,times,inverse,uminus}"
begin
definition plus_xdbl :: "xdbl \<Rightarrow> xdbl \<Rightarrow> xdbl" where "plus_xdbl = xplus"
definition minus_xdbl :: "xdbl \<Rightarrow> xdbl \<Rightarrow> xdbl" where "minus_xdbl x y = xplus x (xuminus y)"
definition times_xdbl :: "xdbl \<Rightarrow> xdbl \<Rightarrow> xdbl" where "times_xdbl = xtimes"
definition divide_xdbl :: "xdbl \<Rightarrow> xdbl \<Rightarrow> xdbl" where "divide_xdbl = xdivide"
definition inverse_xdbl :: "xdbl \<Rightarrow> xdbl" where "inverse_xdbl = xdivide (Num 1)"
definition uminus_xdbl :: "xdbl \<Rightarrow> xdbl" where "uminus_xdbl = xuminus"
instance ..
end

fun xsqrt :: "xdbl \<Rightarrow> xdbl" where
  "xsqrt (Num a) = (if a < 0 then Nan else Num (sqrt a))"
| "xsqrt PInf = PInf"
| "xsqrt x = Nan"

fun xatan :: "xdbl \<Rightarrow> xdbl" where
  "xatan (Num a) = Num (arctan a)"
| "xatan PInf = Num (pi / 2)"
| "xatan MInf = Num (- (pi / 2))"
| "xatan Nan = Nan"

fun xatan2 :: "xdbl \<Rightarrow> xdbl \<Rightarrow> xdbl" where
  "xatan2 (Num y) (Num x) = Num (atan2 y x)"
| "xatan2 Nan x = Nan"
| "xatan2 y Nan = Nan"
| "xatan2 (Num y) PInf = Num 0"
| "xatan2 (Num y) MInf = Num (if 0 \<le> y then pi else - pi)"
| "xatan2 PInf (Num x) = Num (pi / 2)"
| "xatan2 MInf (Num x) = Num (- (pi / 2))"
| "xatan2 PInf PInf = Num (pi / 4)"
| "xatan2 PInf MInf = Num (3 * pi / 4)"
| "xatan2 MInf PInf = Num (- (pi / 4))"
| "xatan2 MInf MInf = Num (- (3 * pi / 4))"

fun xexp :: "xdbl \<Rightarrow> xdbl" where
  "xexp (Num a) = ovf (exp a)"
| "xexp PInf = PInf"
| "xexp MInf = Num 0"
| "xexp Nan = Nan"

fun xlog :: "xdbl \<Rightarrow> xdbl" where
  "xlog (Num a) = (if a < 0 then Nan else if a = 0 then MInf else Num (ln a))"
| "xlog PInf = PInf"
| "xlog x = Nan"

fun xcos :: "xdbl \<Rightarrow> xdbl" where
  "xcos (Num a) = Num (cos a)"
| "xcos x = Nan"

fun xsin :: "xdbl \<Rightarrow> xdbl" where
  "xsin (Num a) = Num (sin a)"
| "xsin x = Nan"

fun xpow :: "xdbl \<Rightarrow> nat \<Rightarrow> xdbl" where
  "xpow x 0 = Num 1"
| "xpow (Num a) n = ovf (a ^ n)"
| "xpow PInf n = PInf"
| "xpow MInf n = (if even n then PInf else MInf)"
| "xpow Nan n = Nan"

fun xcsqrt :: "xdbl \<times> xdbl \<Rightarrow> xdbl \<times> xdbl" where
  "xcsqrt (Num x, Num y) = (Num (Re (csqrt (Complex x y))), Num (Im (csqrt (Complex x y))))"
| "xcsqrt (x, PInf) = (PInf, PInf)"
| "xcsqrt (x, MInf) = (PInf, MInf)"
| "xcsqrt (PInf, Num y) = (PInf, Num 0)"
| "xcsqrt (MInf, Num y) = (Num 0, if 0 \<le> y then PInf else MInf)"
| "xcsqrt (PInf, Nan) = (PInf, Nan)"
| "xcsqrt (MInf, Nan) = (Nan, PInf)"
| "xcsqrt (x, y) = (Nan, Nan)"

definition XL :: "xdbl libm" where
  "XL = \<lparr> lit = ovf, fsqrt = xsqrt, fatan = xatan, fatan2 = xatan2,
          fexp = xexp, flog = xlog, fcos = xcos, fsin = xsin,
          fpow = xpow, fisnan = (\<lambda>x. x = Nan), fcsqrt = xcsqrt \<rparr>"

section \<open>Simpson's rule as the specification words it\<close>

text \<open>The integrand, the weights \<open>1, 4, 2, 4, ..., 4, 1\<close> and the composite sum over
  \<open>[0, 10]\<close> with \<open>N = 10000\<close> intervals, written from the specification for
  comparison with \<open>CI\<close>.\<close>

definition carson_integrand :: "real \<Rightarrow> real \<Rightarrow> real \<Rightarrow> complex" where
  "carson_integrand p q mu =
     (csqrt (of_real (mu * mu) + \<i>) - of_real mu) * of_real (exp (- p * mu)) * of_real (cos (q * mu))"

definition simpson_weight :: "nat \<Rightarrow> nat \<Rightarrow> real" where
  "simpson_weight N i = (if i = 0 \<or> i = N then 1 else if odd i then 4 else 2)"

definition simpson_sum :: "real \<Rightarrow> real \<Rightarrow> complex" where
  "simpson_sum p q =
     (let N = 10000; dmu = 10 / real N
      in (\<Sum>i = 0..N. of_real (simpson_weight N i) * carson_integrand p q (real i * dmu))
           * of_real (dmu / 3))"

text \<open>The complex number that a pair of exact parts stands for.\<close>

definition toC :: "real \<times> real \<Rightarrow> complex" where
  "toC z = Complex (fst z) (snd z)"


section \<open>Properties of the tables\<close>

lemma val_upd_other: "i \<noteq> n \<Longrightarrow> val L (m(n \<mapsto> v)) i = val L m i"
  by (simp add: val_def)

lemma val_upd_same: "val L (m(n \<mapsto> v)) n = v"
  by (simp add: val_def)

lemma val_Some: "m i = Some v \<Longrightarrow> val L m i = v"
  by (simp add: val_def)

lemma F_step_gF: "gF (F_step L n H) = (gF H)(n \<mapsto> cv L (int n) * val L (gF H) (n - 1))"
  by (simp add: F_step_def)

lemma F_loop_outside: "n \<notin> set ns \<Longrightarrow> gF (fold (F_step L) ns G) n = gF G n"
  by (induction ns arbitrary: G) (auto simp add: F_step_gF)

lemma F_step_new:
  "1 \<le> hi \<Longrightarrow>
   gF (F_step L hi H) hi = Some (cv L (int hi) * val L (gF (F_step L hi H)) (hi - 1))"
  by (simp add: F_step_gF val_upd_other)

lemma F_step_old:
  "gF H n = Some (cv L (int n) * val L (gF H) (n - 1)) \<Longrightarrow> n < hi \<Longrightarrow>
   gF (F_step L hi H) n = Some (cv L (int n) * val L (gF (F_step L hi H)) (n - 1))"
  by (simp add: F_step_gF val_upd_other)

lemma F_loop_rec:
  "1 \<le> lo \<Longrightarrow> lo \<le> n \<Longrightarrow> n < hi \<Longrightarrow>
   gF (fold (F_step L) [lo..<hi] G) n
     = Some (cv L (int n) * val L (gF (fold (F_step L) [lo..<hi] G)) (n - 1))"
proof (induction hi)
  case 0
  then show ?case by simp
next
  case (Suc hi)
  let ?H = "fold (F_step L) [lo..<hi] G"
  have lo: "lo \<le> hi" using Suc.prems by simp
  have unf: "fold (F_step L) [lo..<Suc hi] G = F_step L hi ?H"
    using lo by simp
  show ?case
  proof (cases "n = hi")
    case True
    have "1 \<le> hi" using Suc.prems True by simp
    then show ?thesis
      by (simp only: unf True F_step_new)
  next
    case False
    then have n: "n < hi" using Suc.prems by simp
    show ?thesis using F_step_old [OF Suc.IH [OF Suc.prems(1,2) n] n]
      by (simp only: unf)
  qed
qed

lemma SI_loop_frame:
  "gF (fold (SI_step L) ns G) = gF G \<and> gPX (fold (SI_step L) ns G) = gPX G \<and>
   gb (fold (SI_step L) ns G) = gb G \<and> gc (fold (SI_step L) ns G) = gc G \<and>
   gd (fold (SI_step L) ns G) = gd G"
  by (induction ns arbitrary: G) (simp_all add: SI_step_def)

lemma PX_loop_frame:
  "gF (fold (PX_step L) ns G) = gF G \<and> gSI (fold (PX_step L) ns G) = gSI G \<and>
   gb (fold (PX_step L) ns G) = gb G \<and> gc (fold (PX_step L) ns G) = gc G \<and>
   gd (fold (PX_step L) ns G) = gd G"
  by (induction ns arbitrary: G) (simp_all add: PX_step_def)

lemma F_loop_frame:
  "gSI (fold (F_step L) ns G) = gSI G \<and> gPX (fold (F_step L) ns G) = gPX G \<and>
   gb (fold (F_step L) ns G) = gb G \<and> gc (fold (F_step L) ns G) = gc G \<and>
   gd (fold (F_step L) ns G) = gd G"
  by (induction ns arbitrary: G) (simp_all add: F_step_def)

lemma Factorials_gF:
  "gF (Factorials L G) = gF (fold (F_step L) [1..<Nf] (G\<lparr> gF := (gF G)(0 \<mapsto> lit L 1) \<rparr>))"
  by (simp add: Factorials_def Let_def SI_loop_frame PX_loop_frame)

lemma Factorials_coeff_frame:
  "gb (Factorials L G) = gb G \<and> gc (Factorials L G) = gc G \<and> gd (Factorials L G) = gd G"
  by (simp add: Factorials_def Let_def SI_loop_frame PX_loop_frame F_loop_frame)

lemma Factorials_F0: "gF (Factorials L G) 0 = Some (lit L 1)"
  by (simp add: Factorials_gF F_loop_outside)

lemma Factorials_F_rec:
  "1 \<le> n \<Longrightarrow> n < Nf \<Longrightarrow>
   gF (Factorials L G) n = Some (cv L (int n) * val L (gF (Factorials L G)) (n - 1))"
  by (simp only: Factorials_gF) (rule F_loop_rec, simp_all)

lemma Factorials_F_fact: "n < Nf \<Longrightarrow> gF (Factorials RL G) n = Some (fact n)"
proof (induction n)
  case 0
  show ?case by (simp add: Factorials_F0 RL_def)
next
  case (Suc n)
  then have "gF (Factorials RL G) n = Some (fact n)" by simp
  then have "val RL (gF (Factorials RL G)) n = fact n" by (rule val_Some)
  then show ?case using Factorials_F_rec [of "Suc n" RL G] Suc.prems
    by (simp add: cv_def RL_def)
qed

lemma F_loop_dom: "dom (gF (fold (F_step L) ns G)) = dom (gF G) \<union> set ns"
  by (induction ns arbitrary: G) (auto simp add: F_step_gF)

lemma Factorials_dom: "dom (gF (Factorials L G0)) = {0..149}"
proof -
  have "dom (gF (Factorials L G0)) = {0} \<union> set [1..<Nf]"
    by (simp add: Factorials_gF F_loop_dom G0_def)
  also have "\<dots> = {0..149}" by (auto simp add: Nf_def)
  finally show ?thesis .
qed

text \<open>
  C6.  After \<open>Factorials\<close>, \<open>F[0]\<close> is \<open>1.0\<close> and \<open>F[n]\<close> is the product of \<open>n\<close> and
  \<open>F[n - 1]\<close> for every \<open>n\<close> from \<open>1\<close> to \<open>Nf - 1 = 149\<close>, in every arithmetic and
  whatever the arrays held before; the entries assigned are the \<open>150\<close> entries from \<open>0\<close>
  to \<open>149\<close>.  In exact arithmetic \<open>F[n]\<close> is the factorial of \<open>n\<close>, and the entries from
  index \<open>1\<close> on are strictly increasing.
\<close>

theorem Factorials_table:
  "gF (Factorials L G) 0 = Some (lit L 1) \<and>
   (\<forall>n. 1 \<le> n \<and> n < Nf \<longrightarrow>
      gF (Factorials L G) n = Some (cv L (int n) * val L (gF (Factorials L G)) (n - 1))) \<and>
   dom (gF (Factorials L G0)) = {0..149} \<and>
   (\<forall>n. n < Nf \<longrightarrow> gF (Factorials RL H) n = Some (fact n)) \<and>
   (\<forall>m n. 1 \<le> m \<and> m < n \<and> n < Nf \<longrightarrow>
      val RL (gF (Factorials RL H)) m < val RL (gF (Factorials RL H)) n)"
proof (intro conjI allI impI)
  show "gF (Factorials L G) 0 = Some (lit L 1)" by (rule Factorials_F0)
next
  show "dom (gF (Factorials L G0)) = {0..149}" by (rule Factorials_dom)
next
  fix n assume "n < Nf"
  then show "gF (Factorials RL H) n = Some (fact n)" by (rule Factorials_F_fact)
next
  fix n assume "1 \<le> n \<and> n < Nf"
  then show "gF (Factorials L G) n = Some (cv L (int n) * val L (gF (Factorials L G)) (n - 1))"
    by (simp add: Factorials_F_rec)
next
  fix m n :: nat assume h: "1 \<le> m \<and> m < n \<and> n < Nf"
  then have "val RL (gF (Factorials RL H)) m = fact m" "val RL (gF (Factorials RL H)) n = fact n"
    by (simp_all add: Factorials_F_fact val_Some)
  moreover have "(fact m :: real) < fact n" using h by (simp add: fact_less_mono)
  ultimately show "val RL (gF (Factorials RL H)) m < val RL (gF (Factorials RL H)) n" by simp
qed

theorem Factorials_table_witness:
  "gF (Factorials RL G0) 0 = Some 1 \<and>
   (1::nat) \<le> 3 \<and> (3::nat) < Nf \<and>
   gF (Factorials RL G0) 3 = Some (3 * val RL (gF (Factorials RL G0)) 2) \<and>
   gF (Factorials RL G0) 3 = Some 6 \<and>
   (1::nat) \<le> 1 \<and> (1::nat) < 2 \<and> (2::nat) < Nf \<and>
   val RL (gF (Factorials RL G0)) 1 < val RL (gF (Factorials RL G0)) 2"
proof -
  note T = Factorials_table [of RL G0 G0]
  have lit: "lit RL x = x" "cv RL n = real_of_int n" for x n
    by (simp_all add: cv_def RL_def)
  have "gF (Factorials RL G0) 0 = Some 1"
    using T [THEN conjunct1] by (simp only: lit)
  moreover have "gF (Factorials RL G0) 3 = Some (3 * val RL (gF (Factorials RL G0)) 2)"
    using T [THEN conjunct2, THEN conjunct1, rule_format, of 3] by (simp add: lit Nf_def)
  moreover have "gF (Factorials RL G0) 3 = Some 6"
    using T [THEN conjunct2, THEN conjunct2, THEN conjunct2, THEN conjunct1, rule_format, of 3]
    by (simp add: Nf_def fact_numeral)
  moreover have "val RL (gF (Factorials RL G0)) 1 < val RL (gF (Factorials RL G0)) 2"
    using T [THEN conjunct2, THEN conjunct2, THEN conjunct2, THEN conjunct2, rule_format, of 1 2]
    by (simp add: Nf_def)
  ultimately show ?thesis by (simp add: Nf_def)
qed

subsection \<open>Loops that assign one element per pass\<close>

lemma val_if_other: "i \<noteq> n \<Longrightarrow> val L (\<lambda>a. if a = n then x else m a) i = val L m i"
  by (simp add: val_def)

lemma val_if_same: "val L (\<lambda>a. if a = n then Some v else m a) n = v"
  by (simp add: val_def)

lemma cell_loop_outside:
  assumes "\<And>n H. \<exists>v. g (step n H) = (g H)(n \<mapsto> v)"
  shows "n \<notin> set ns \<Longrightarrow> g (fold step ns G) n = g G n"
proof (induction ns arbitrary: G)
  case Nil
  show ?case by simp
next
  case (Cons a ns)
  obtain v where v: "g (step a G) = (g G)(a \<mapsto> v)" using assms by blast
  have "g (fold step ns (step a G)) n = g (step a G) n" using Cons by simp
  also have "\<dots> = g G n" using Cons.prems by (simp add: v)
  finally show ?case by simp
qed

lemma cell_loop_dom:
  assumes "\<And>n H. \<exists>v. g (step n H) = (g H)(n \<mapsto> v)"
  shows "dom (g (fold step ns G)) = dom (g G) \<union> set ns"
proof (induction ns arbitrary: G)
  case Nil
  show ?case by simp
next
  case (Cons a ns)
  obtain v where v: "g (step a G) = (g G)(a \<mapsto> v)" using assms by blast
  have "dom (g (fold step ns (step a G))) = dom (g (step a G)) \<union> set ns" using Cons by simp
  also have "\<dots> = dom (g G) \<union> set (a # ns)" by (simp add: v)
  finally show ?case by simp
qed

lemma cell_loop_rec:
  assumes step: "\<And>n H. g (step n H) = (g H)(n \<mapsto> f n (val L (g H) (n - k)))"
    and k: "1 \<le> k" "k \<le> lo"
  shows "lo \<le> n \<Longrightarrow> n < hi \<Longrightarrow>
         g (fold step [lo..<hi] G) n = Some (f n (val L (g (fold step [lo..<hi] G)) (n - k)))"
proof (induction hi)
  case 0
  then show ?case by simp
next
  case (Suc hi)
  let ?H = "fold step [lo..<hi] G"
  have lo: "lo \<le> hi" using Suc.prems by simp
  have unf: "fold step [lo..<Suc hi] G = step hi ?H"
    using lo by simp
  show ?case
  proof (cases "n = hi")
    case True
    have "hi - k \<noteq> hi" using k lo by simp
    then have "val L (g (step hi ?H)) (hi - k) = val L (g ?H) (hi - k)"
      by (simp add: step val_upd_other val_if_other)
    then show ?thesis by (simp only: unf True) (simp add: step)
  next
    case False
    then have n: "n < hi" using Suc.prems by simp
    have "n - k \<noteq> hi" using n by simp
    then have "val L (g (step hi ?H)) (n - k) = val L (g ?H) (n - k)"
      by (simp add: step val_upd_other)
    moreover have "g (step hi ?H) n = g ?H n" using False by (simp add: step)
    ultimately show ?thesis using Suc.IH [OF Suc.prems(1) n] by (simp only: unf)
  qed
qed

subsection \<open>\<open>Coeffs\<close>\<close>

lemma Coeffs_step_gb:
  "gb (Coeffs_step L n H)
     = (gb H)(n \<mapsto> fpow L (lit L (- 1)) ((n + 1) div 2 mod 2) * val L (gb H) (n - 2)
                        / (cv L (int n) * (cv L (int n) + lit L 2)))"
  by (simp add: Coeffs_step_def Let_def)

lemma Coeffs_step_gc:
  "gc (Coeffs_step L n H)
     = (gc H)(n \<mapsto> val L (gc H) (n - 2) + lit L 1 / cv L (int n) + lit L 1 / cv L (int (n + 2)))"
  by (simp add: Coeffs_step_def Let_def)

lemma Coeffs_step_gd:
  "gd (Coeffs_step L n H) = (gd H)(n \<mapsto> pi_c L * val L (gb (Coeffs_step L n H)) n / lit L 4)"
  by (simp add: Coeffs_step_def Let_def val_upd_same)

lemma Coeffs_step_frame:
  "gF (Coeffs_step L n H) = gF H \<and> gSI (Coeffs_step L n H) = gSI H \<and>
   gPX (Coeffs_step L n H) = gPX H"
  by (simp add: Coeffs_step_def Let_def)

lemma Coeffs_loop_frame:
  "gF (fold (Coeffs_step L) ns G) = gF G \<and> gSI (fold (Coeffs_step L) ns G) = gSI G \<and>
   gPX (fold (Coeffs_step L) ns G) = gPX G"
  by (induction ns arbitrary: G) (simp_all add: Coeffs_step_frame)

lemma Coeffs_loop_gd:
  "lo \<le> n \<Longrightarrow> n < hi \<Longrightarrow>
   gd (fold (Coeffs_step L) [lo..<hi] G) n
     = Some (pi_c L * val L (gb (fold (Coeffs_step L) [lo..<hi] G)) n / lit L 4)"
proof (induction hi)
  case 0
  then show ?case by simp
next
  case (Suc hi)
  let ?H = "fold (Coeffs_step L) [lo..<hi] G"
  have lo: "lo \<le> hi" using Suc.prems by simp
  have unf: "fold (Coeffs_step L) [lo..<Suc hi] G = Coeffs_step L hi ?H"
    using lo by simp
  show ?case
  proof (cases "n = hi")
    case True
    show ?thesis by (simp only: unf True Coeffs_step_gd) simp
  next
    case False
    then have n: "n < hi" using Suc.prems by simp
    have "val L (gb (Coeffs_step L hi ?H)) n = val L (gb ?H) n"
      using False by (simp add: Coeffs_step_gb val_upd_other)
    moreover have "gd (Coeffs_step L hi ?H) n = gd ?H n"
      using False by (simp add: Coeffs_step_gd)
    ultimately show ?thesis using Suc.IH [OF Suc.prems(1) n] by (simp only: unf)
  qed
qed

lemma Coeffs_step_cell:
  "\<exists>v. gb (Coeffs_step L n H) = (gb H)(n \<mapsto> v)"
  "\<exists>v. gc (Coeffs_step L n H) = (gc H)(n \<mapsto> v)"
  "\<exists>v. gd (Coeffs_step L n H) = (gd H)(n \<mapsto> v)"
  by (rule exI, rule Coeffs_step_gb, rule exI, rule Coeffs_step_gc, rule exI, rule Coeffs_step_gd)

lemma Coeffs_loop_outside:
  assumes "n \<notin> set ns"
  shows "gb (fold (Coeffs_step L) ns G) n = gb G n"
    and "gc (fold (Coeffs_step L) ns G) n = gc G n"
    and "gd (fold (Coeffs_step L) ns G) n = gd G n"
  using assms
    cell_loop_outside [where g = gb and step = "Coeffs_step L", OF Coeffs_step_cell(1)]
    cell_loop_outside [where g = gc and step = "Coeffs_step L", OF Coeffs_step_cell(2)]
    cell_loop_outside [where g = gd and step = "Coeffs_step L", OF Coeffs_step_cell(3)]
  by blast+

lemma Coeffs_loop_dom:
  "dom (gb (fold (Coeffs_step L) ns G)) = dom (gb G) \<union> set ns"
  "dom (gc (fold (Coeffs_step L) ns G)) = dom (gc G) \<union> set ns"
  "dom (gd (fold (Coeffs_step L) ns G)) = dom (gd G) \<union> set ns"
  using
    cell_loop_dom [where g = gb and step = "Coeffs_step L", OF Coeffs_step_cell(1)]
    cell_loop_dom [where g = gc and step = "Coeffs_step L", OF Coeffs_step_cell(2)]
    cell_loop_dom [where g = gd and step = "Coeffs_step L", OF Coeffs_step_cell(3)]
  by blast+

lemma not_in_loop: "(1::nat) \<notin> set [3..<Ne]" "(2::nat) \<notin> set [3..<Ne]"
  by simp_all

lemma Coeffs_seeds:
  "gb (Coeffs L G) 1 = Some (tworoot L / lit L 6)"
  "gb (Coeffs L G) 2 = Some (lit L 1 / lit L 16)"
  "gc (Coeffs L G) 2 = Some (lit L (13659315 / 10 ^ 7))"
  "gd (Coeffs L G) 2 = Some (pi_c L * val L (gb (Coeffs L G)) 2 / lit L 4)"
proof -
  show b1: "gb (Coeffs L G) 1 = Some (tworoot L / lit L 6)"
    unfolding Coeffs_def Let_def by (simp only: Coeffs_loop_outside [OF not_in_loop(1)]) simp
  show b2: "gb (Coeffs L G) 2 = Some (lit L 1 / lit L 16)"
    unfolding Coeffs_def Let_def by (simp only: Coeffs_loop_outside [OF not_in_loop(2)]) simp
  show "gc (Coeffs L G) 2 = Some (lit L (13659315 / 10 ^ 7))"
    unfolding Coeffs_def Let_def by (simp only: Coeffs_loop_outside [OF not_in_loop(2)]) simp
  have "gd (Coeffs L G) 2 = Some (pi_c L * (lit L 1 / lit L 16) / lit L 4)"
    unfolding Coeffs_def Let_def
    by (simp only: Coeffs_loop_outside [OF not_in_loop(2)]) (simp add: val_upd_same val_if_same)
  then show "gd (Coeffs L G) 2 = Some (pi_c L * val L (gb (Coeffs L G)) 2 / lit L 4)"
    by (simp add: val_Some [where m = "gb (Coeffs L G)" and i = 2, OF b2])
qed

lemma Coeffs_rec:
  assumes "3 \<le> n" "n < Ne"
  shows "gb (Coeffs L G) n
           = Some (fpow L (lit L (- 1)) ((n + 1) div 2 mod 2) * val L (gb (Coeffs L G)) (n - 2)
                     / (cv L (int n) * (cv L (int n) + lit L 2)))"
    and "gc (Coeffs L G) n
           = Some (val L (gc (Coeffs L G)) (n - 2) + lit L 1 / cv L (int n)
                     + lit L 1 / cv L (int (n + 2)))"
    and "gd (Coeffs L G) n = Some (pi_c L * val L (gb (Coeffs L G)) n / lit L 4)"
proof -
  show "gb (Coeffs L G) n
           = Some (fpow L (lit L (- 1)) ((n + 1) div 2 mod 2) * val L (gb (Coeffs L G)) (n - 2)
                     / (cv L (int n) * (cv L (int n) + lit L 2)))"
    unfolding Coeffs_def Let_def
    by (rule cell_loop_rec [where g = gb and k = 2 and step = "Coeffs_step L"
          and f = "\<lambda>n v. fpow L (lit L (- 1)) ((n + 1) div 2 mod 2) * v
                            / (cv L (int n) * (cv L (int n) + lit L 2))"])
       (use assms in \<open>simp_all add: Coeffs_step_gb\<close>)
  show "gc (Coeffs L G) n
           = Some (val L (gc (Coeffs L G)) (n - 2) + lit L 1 / cv L (int n)
                     + lit L 1 / cv L (int (n + 2)))"
    unfolding Coeffs_def Let_def
    by (rule cell_loop_rec [where g = gc and k = 2 and step = "Coeffs_step L"
          and f = "\<lambda>n v. v + lit L 1 / cv L (int n) + lit L 1 / cv L (int (n + 2))"])
       (use assms in \<open>simp_all add: Coeffs_step_gc\<close>)
  show "gd (Coeffs L G) n = Some (pi_c L * val L (gb (Coeffs L G)) n / lit L 4)"
    unfolding Coeffs_def Let_def
    by (rule Coeffs_loop_gd) (use assms in simp_all)
qed

lemma seeds_and_loop: "{1, 2} \<union> {3..<Ne} = {1..<Ne}" "{2} \<union> {3..<Ne} = {2..<Ne}"
  by (auto simp add: Ne_def)

lemma Coeffs_dom:
  "dom (gb (Coeffs L G)) = dom (gb G) \<union> {1..<Ne}"
  "dom (gc (Coeffs L G)) = dom (gc G) \<union> {2..<Ne}"
  "dom (gd (Coeffs L G)) = dom (gd G) \<union> {2..<Ne}"
proof -
  have "dom (gb (Coeffs L G)) = dom (gb G) \<union> ({1, 2} \<union> {3..<Ne})"
    unfolding Coeffs_def Let_def by (simp only: Coeffs_loop_dom) auto
  then show "dom (gb (Coeffs L G)) = dom (gb G) \<union> {1..<Ne}" by (simp only: seeds_and_loop)
  have "dom (gc (Coeffs L G)) = dom (gc G) \<union> ({2} \<union> {3..<Ne})"
    unfolding Coeffs_def Let_def by (simp only: Coeffs_loop_dom) auto
  then show "dom (gc (Coeffs L G)) = dom (gc G) \<union> {2..<Ne}" by (simp only: seeds_and_loop)
  have "dom (gd (Coeffs L G)) = dom (gd G) \<union> ({2} \<union> {3..<Ne})"
    unfolding Coeffs_def Let_def by (simp only: Coeffs_loop_dom) auto
  then show "dom (gd (Coeffs L G)) = dom (gd G) \<union> {2..<Ne}" by (simp only: seeds_and_loop)
qed

lemma Coeffs_frame:
  "gF (Coeffs L G) = gF G \<and> gSI (Coeffs L G) = gSI G \<and> gPX (Coeffs L G) = gPX G"
  by (simp add: Coeffs_def Let_def Coeffs_loop_frame)

lemma startup_dom:
  "dom (gb (startup L)) = {1..<Ne}" "dom (gc (startup L)) = {2..<Ne}"
  "dom (gd (startup L)) = {2..<Ne}"
  by (simp_all add: startup_def Coeffs_dom Factorials_coeff_frame G0_def)

subsection \<open>The exact instance\<close>

lemma RL_sel:
  "lit RL x = x" "fsqrt RL = sqrt" "fatan RL = arctan" "fatan2 RL = atan2" "fexp RL = exp"
  "flog RL = ln" "fcos RL = cos" "fsin RL = sin" "fpow RL x n = x ^ n" "fisnan RL x = False"
  by (simp_all add: RL_def)

lemma RL_consts: "cv RL n = real_of_int n" "pi_c RL = pi" "tworoot RL = sqrt 2"
  by (simp_all add: cv_def pi_c_def tworoot_def RL_sel arctan_one)

lemma startup_seeds:
  "gb (startup L) 1 = Some (tworoot L / lit L 6)"
  "gb (startup L) 2 = Some (lit L 1 / lit L 16)"
  "gc (startup L) 2 = Some (lit L (13659315 / 10 ^ 7))"
  "gd (startup L) 2 = Some (pi_c L * val L (gb (startup L)) 2 / lit L 4)"
  unfolding startup_def by (rule Coeffs_seeds)+

lemma startup_rec:
  assumes "3 \<le> n" "n < Ne"
  shows "gb (startup L) n
           = Some (fpow L (lit L (- 1)) ((n + 1) div 2 mod 2) * val L (gb (startup L)) (n - 2)
                     / (cv L (int n) * (cv L (int n) + lit L 2)))"
    and "gc (startup L) n
           = Some (val L (gc (startup L)) (n - 2) + lit L 1 / cv L (int n)
                     + lit L 1 / cv L (int (n + 2)))"
    and "gd (startup L) n = Some (pi_c L * val L (gb (startup L)) n / lit L 4)"
  unfolding startup_def by (rule Coeffs_rec [OF assms])+

lemma startup_unassigned: "gc (startup L) 1 = None" "gd (startup L) 1 = None"
proof -
  have "(1::nat) \<notin> dom (gc (startup L))" "(1::nat) \<notin> dom (gd (startup L))"
    by (simp_all add: startup_dom)
  then show "gc (startup L) 1 = None" "gd (startup L) 1 = None"
    by blast+
qed

lemma startup_b_values:
  "val RL (gb (startup RL)) (Suc 0) = sqrt 2 / 6"
  "val RL (gb (startup RL)) 3 = sqrt 2 / 90"
  "val RL (gb (startup RL)) 5 = - (sqrt 2 / 3150)"
proof -
  have "val RL (gb (startup RL)) 1 = sqrt 2 / 6"
    using val_Some [where m = "gb (startup RL)" and i = 1 and L = RL, OF startup_seeds(1)]
    by (simp add: RL_sel RL_consts)
  then show b1: "val RL (gb (startup RL)) (Suc 0) = sqrt 2 / 6" by simp
  have "gb (startup RL) 3 = Some ((- 1) ^ 0 * val RL (gb (startup RL)) (Suc 0) / (3 * (3 + 2)))"
    using startup_rec(1) [of 3 RL] by (simp add: Ne_def RL_sel RL_consts)
  then have "gb (startup RL) 3 = Some (sqrt 2 / 90)"
    by (simp add: b1)
  then show b3: "val RL (gb (startup RL)) 3 = sqrt 2 / 90"
    by (rule val_Some)
  have "gb (startup RL) 5 = Some ((- 1) ^ 1 * val RL (gb (startup RL)) 3 / (5 * (5 + 2)))"
    using startup_rec(1) [of 5 RL] by (simp add: Ne_def RL_sel RL_consts)
  then have "gb (startup RL) 5 = Some (- (sqrt 2 / 3150))"
    by (simp add: b3)
  then show "val RL (gb (startup RL)) 5 = - (sqrt 2 / 3150)"
    by (rule val_Some)
qed

lemma Coeffs_loop_any:
  "gb (startup L) 1 = Some (tworoot L / lit L 6) \<and>
   gb (startup L) 2 = Some (lit L 1 / lit L 16) \<and>
   gc (startup L) 2 = Some (lit L (13659315 / 10 ^ 7)) \<and>
   gd (startup L) 2 = Some (pi_c L * val L (gb (startup L)) 2 / lit L 4) \<and>
   (\<forall>n. 3 \<le> n \<and> n < Ne \<longrightarrow>
      gb (startup L) n
        = Some (fpow L (lit L (- 1)) ((n + 1) div 2 mod 2) * val L (gb (startup L)) (n - 2)
                  / (cv L (int n) * (cv L (int n) + lit L 2))) \<and>
      gc (startup L) n
        = Some (val L (gc (startup L)) (n - 2) + lit L 1 / cv L (int n)
                  + lit L 1 / cv L (int (n + 2))) \<and>
      gd (startup L) n = Some (pi_c L * val L (gb (startup L)) n / lit L 4))"
  by (intro conjI allI impI startup_seeds startup_rec) blast+

lemma Coeffs_loop_exact:
  "gb (startup RL) 1 = Some (sqrt 2 / 6) \<and>
   gb (startup RL) 2 = Some (1 / 16) \<and>
   gc (startup RL) 2 = Some (13659315 / 10 ^ 7) \<and>
   gd (startup RL) 2 = Some (pi * val RL (gb (startup RL)) 2 / 4) \<and>
   (\<forall>n. 3 \<le> n \<and> n < Ne \<longrightarrow>
      gb (startup RL) n
        = Some ((- 1) ^ ((n + 1) div 2 mod 2) * val RL (gb (startup RL)) (n - 2)
                  / (real n * (real n + 2))) \<and>
      gc (startup RL) n
        = Some (val RL (gc (startup RL)) (n - 2) + 1 / real n + 1 / real (n + 2)) \<and>
      gd (startup RL) n = Some (pi * val RL (gb (startup RL)) n / 4)) \<and>
   gb (startup RL) 7
     \<noteq> Some (published_sign RL 7 * val RL (gb (startup RL)) (7 - 2) / (real 7 * (real 7 + 2)))"
proof (intro conjI allI impI)
  show "gb (startup RL) 1 = Some (sqrt 2 / 6)"
    using startup_seeds(1) [of RL] by (simp add: RL_sel RL_consts)
  show "gb (startup RL) 2 = Some (1 / 16)"
    using startup_seeds(2) [of RL] by (simp add: RL_sel RL_consts)
  show "gc (startup RL) 2 = Some (13659315 / 10 ^ 7)"
    using startup_seeds(3) [of RL] by (simp add: RL_sel RL_consts)
  show "gd (startup RL) 2 = Some (pi * val RL (gb (startup RL)) 2 / 4)"
    using startup_seeds(4) [of RL] by (simp add: RL_sel RL_consts)
next
  fix n assume n: "3 \<le> n \<and> n < Ne"
  show "gb (startup RL) n
        = Some ((- 1) ^ ((n + 1) div 2 mod 2) * val RL (gb (startup RL)) (n - 2)
                  / (real n * (real n + 2)))"
    using startup_rec(1) [of n RL] n by (simp add: RL_sel RL_consts)
  show "gc (startup RL) n
        = Some (val RL (gc (startup RL)) (n - 2) + 1 / real n + 1 / real (n + 2))"
    using startup_rec(2) [of n RL] n by (simp add: RL_sel RL_consts add.commute)
  show "gd (startup RL) n = Some (pi * val RL (gb (startup RL)) n / 4)"
    using startup_rec(3) [of n RL] n by (simp add: RL_sel RL_consts)
next
  have "gb (startup RL) 7 = Some ((- 1) ^ 0 * val RL (gb (startup RL)) 5 / (7 * (7 + 2)))"
    using startup_rec(1) [of 7 RL] by (simp add: Ne_def RL_sel RL_consts)
  moreover have "published_sign RL 7 = - 1"
    by (simp add: published_sign_def RL_sel)
  ultimately show "gb (startup RL) 7
     \<noteq> Some (published_sign RL 7 * val RL (gb (startup RL)) (7 - 2) / (real 7 * (real 7 + 2)))"
    by (simp add: startup_b_values)
qed

text \<open>
  C3.  After \<open>Factorials\<close> and \<open>Coeffs\<close> on the zero-initialised arrays, in every
  arithmetic: \<open>b[1]\<close> is \<open>tworoot / 6.0\<close>, \<open>b[2]\<close> is \<open>1.0 / 16.0\<close>, \<open>c[2]\<close> is
  \<open>1.3659315\<close> and \<open>d[2]\<close> is \<open>pi * b[2] / 4.0\<close>; for every index \<open>n\<close> of the loop, from
  \<open>3\<close> to \<open>Ne - 1 = 49\<close>, \<open>b[n]\<close> is \<open>pow(-1.0, (n + 1) / 2 % 2) * b[n - 2]\<close> over
  \<open>n * (n + 2.0)\<close>, \<open>c[n]\<close> is \<open>c[n - 2] + 1.0 / n + 1.0 / (n + 2)\<close> and \<open>d[n]\<close> is
  \<open>pi * b[n] / 4.0\<close>, where an element that was never assigned reads as \<open>0.0\<close>.  In exact
  arithmetic these are the square root of \<open>2\<close> over \<open>6\<close>, \<open>1/16\<close>, \<open>pi * b[2] / 4\<close>, the
  sign \<open>(-1) ^ ((n + 1) div 2 mod 2)\<close> and so on.  The published sign is not the one
  used: at \<open>n = 7\<close> it would give another \<open>b[7]\<close>.
\<close>

theorem Coeffs_recurrence:
  "(gb (startup L) 1 = Some (tworoot L / lit L 6) \<and>
   gb (startup L) 2 = Some (lit L 1 / lit L 16) \<and>
   gc (startup L) 2 = Some (lit L (13659315 / 10 ^ 7)) \<and>
   gd (startup L) 2 = Some (pi_c L * val L (gb (startup L)) 2 / lit L 4) \<and>
   (\<forall>n. 3 \<le> n \<and> n < Ne \<longrightarrow>
      gb (startup L) n
        = Some (fpow L (lit L (- 1)) ((n + 1) div 2 mod 2) * val L (gb (startup L)) (n - 2)
                  / (cv L (int n) * (cv L (int n) + lit L 2))) \<and>
      gc (startup L) n
        = Some (val L (gc (startup L)) (n - 2) + lit L 1 / cv L (int n)
                  + lit L 1 / cv L (int (n + 2))) \<and>
      gd (startup L) n = Some (pi_c L * val L (gb (startup L)) n / lit L 4))) \<and>
   (gb (startup RL) 1 = Some (sqrt 2 / 6) \<and>
   gb (startup RL) 2 = Some (1 / 16) \<and>
   gc (startup RL) 2 = Some (13659315 / 10 ^ 7) \<and>
   gd (startup RL) 2 = Some (pi * val RL (gb (startup RL)) 2 / 4) \<and>
   (\<forall>n. 3 \<le> n \<and> n < Ne \<longrightarrow>
      gb (startup RL) n
        = Some ((- 1) ^ ((n + 1) div 2 mod 2) * val RL (gb (startup RL)) (n - 2)
                  / (real n * (real n + 2))) \<and>
      gc (startup RL) n
        = Some (val RL (gc (startup RL)) (n - 2) + 1 / real n + 1 / real (n + 2)) \<and>
      gd (startup RL) n = Some (pi * val RL (gb (startup RL)) n / 4)) \<and>
   gb (startup RL) 7
     \<noteq> Some (published_sign RL 7 * val RL (gb (startup RL)) (7 - 2) / (real 7 * (real 7 + 2))))"
  by (rule conjI [OF Coeffs_loop_any Coeffs_loop_exact])

theorem Coeffs_recurrence_witness:
  "(3::nat) \<le> 3 \<and> (3::nat) < Ne \<and>
   gb (startup RL) 3 = Some (sqrt 2 / 90) \<and>
   gc (startup RL) 3 = Some (0 + 1 / 3 + 1 / 5) \<and>
   gd (startup RL) 3 = Some (pi * (sqrt 2 / 90) / 4)"
proof -
  have "val RL (gc (startup RL)) 1 = 0"
    by (simp only: val_def startup_unassigned) (simp add: RL_sel)
  then have c1: "val RL (gc (startup RL)) (Suc 0) = 0" by simp
  note exact = Coeffs_recurrence [where L = RL, THEN conjunct2]
  have b3: "gb (startup RL) 3 = Some (sqrt 2 / 90)"
    using exact startup_b_values(1) by (simp add: Ne_def)
  have d3: "gd (startup RL) 3 = Some (pi * (sqrt 2 / 90) / 4)"
    using exact startup_b_values(2) by (simp add: Ne_def)
  have c3: "gc (startup RL) 3 = Some (0 + 1 / 3 + 1 / 5)"
    using exact c1 by (simp add: Ne_def)
  show ?thesis
    using b3 c3 d3 by (simp add: Ne_def)
qed

text \<open>
  C5 (amended).  \<open>Coeffs\<close> assigns \<open>b[n]\<close> exactly for \<open>n\<close> from \<open>1\<close> to \<open>49\<close>, and
  \<open>c[n]\<close> and \<open>d[n]\<close> exactly for \<open>n\<close> from \<open>2\<close> to \<open>49\<close>: it assigns neither \<open>c[1]\<close> nor
  \<open>d[1]\<close>, and it runs its loop up to \<open>n = 49\<close>.
\<close>

theorem Coeffs_assigned:
  "dom (gb (startup L)) = {1..49} \<and> dom (gc (startup L)) = {2..49} \<and>
   dom (gd (startup L)) = {2..49}"
  by (auto simp add: startup_dom Ne_def)

text \<open>The claim as stated asks for \<open>c[1]\<close> and \<open>d[1]\<close> to be assigned; they are not.\<close>

theorem Coeffs_assigned_counterexample:
  "gc (startup RL) 1 = None \<and> gd (startup RL) 1 = None"
  by (simp only: startup_unassigned)

subsection \<open>What \<open>Je\<close> reads\<close>

lemma agree_b:
  assumes "\<forall>i. 1 \<le> i \<and> i \<le> (25::nat) \<longrightarrow> b' i = b i"
  shows
    "b' 1 = b 1"
    "b' 2 = b 2"
    "b' 3 = b 3"
    "b' 4 = b 4"
    "b' 5 = b 5"
    "b' 6 = b 6"
    "b' 7 = b 7"
    "b' 8 = b 8"
    "b' 9 = b 9"
    "b' 10 = b 10"
    "b' 11 = b 11"
    "b' 12 = b 12"
    "b' 13 = b 13"
    "b' 14 = b 14"
    "b' 15 = b 15"
    "b' 16 = b 16"
    "b' 17 = b 17"
    "b' 18 = b 18"
    "b' 19 = b 19"
    "b' 20 = b 20"
    "b' 21 = b 21"
    "b' 22 = b 22"
    "b' 23 = b 23"
    "b' 24 = b 24"
    "b' 25 = b 25"
  using assms by simp_all

lemma agree_c:
  assumes "\<forall>i. even i \<and> 2 \<le> i \<and> i \<le> (22::nat) \<longrightarrow> c' i = c i"
  shows
    "c' 2 = c 2"
    "c' 4 = c 4"
    "c' 6 = c 6"
    "c' 8 = c 8"
    "c' 10 = c 10"
    "c' 12 = c 12"
    "c' 14 = c 14"
    "c' 16 = c 16"
    "c' 18 = c 18"
    "c' 20 = c 20"
    "c' 22 = c 22"
  using assms by simp_all

lemma agree_d:
  assumes "\<forall>i. even i \<and> 2 \<le> i \<and> i \<le> (24::nat) \<longrightarrow> d' i = d i"
  shows
    "d' 2 = d 2"
    "d' 4 = d 4"
    "d' 6 = d 6"
    "d' 8 = d 8"
    "d' 10 = d 10"
    "d' 12 = d 12"
    "d' 14 = d 14"
    "d' 16 = d 16"
    "d' 18 = d 18"
    "d' 20 = d 20"
    "d' 22 = d 22"
    "d' 24 = d 24"
  using assms by simp_all

lemma Je_PQ_reads:
  assumes "\<forall>i. 1 \<le> i \<and> i \<le> (25::nat) \<longrightarrow> b' i = b i"
    and "\<forall>i. even i \<and> 2 \<le> i \<and> i \<le> (22::nat) \<longrightarrow> c' i = c i"
    and "\<forall>i. even i \<and> 2 \<le> i \<and> i \<le> (24::nat) \<longrightarrow> d' i = d i"
  shows "Je_P L b' c' d' lna th ap cthp sthp = Je_P L b c d lna th ap cthp sthp"
    and "Je_Q L b' c' d' lna th ap cthp sthp = Je_Q L b c d lna th ap cthp sthp"
  unfolding Je_P_def Je_Q_def
  by (simp_all only: agree_b [OF assms(1)] agree_c [OF assms(2)] agree_d [OF assms(3)])

lemma val_cong: "m' i = m i \<Longrightarrow> val L m' i = val L m i"
  by (simp add: val_def)

lemma Je_reads:
  assumes "\<forall>i. 1 \<le> i \<and> i \<le> (25::nat) \<longrightarrow> gb G' i = gb G i"
    and "\<forall>i. even i \<and> 2 \<le> i \<and> i \<le> (22::nat) \<longrightarrow> gc G' i = gc G i"
    and "\<forall>i. even i \<and> 2 \<le> i \<and> i \<le> (24::nat) \<longrightarrow> gd G' i = gd G i"
  shows "Je L G' p q = Je L G p q"
proof -
  have b: "\<forall>i. 1 \<le> i \<and> i \<le> (25::nat) \<longrightarrow> val L (gb G') i = val L (gb G) i"
    using assms(1) by (auto intro: val_cong)
  have c: "\<forall>i. even i \<and> 2 \<le> i \<and> i \<le> (22::nat) \<longrightarrow> val L (gc G') i = val L (gc G) i"
    using assms(2) by (auto intro: val_cong)
  have d: "\<forall>i. even i \<and> 2 \<le> i \<and> i \<le> (24::nat) \<longrightarrow> val L (gd G') i = val L (gd G) i"
    using assms(3) by (auto intro: val_cong)
  show ?thesis
    unfolding Je_def Let_def by (simp only: Je_PQ_reads [OF b c d])
qed

lemma J_bodies_coeff_free:
  "J_s2 L M (G\<lparr> gb := x, gc := y, gd := z \<rparr>) = J_s2 L M G"
  "J_s4 L M (G\<lparr> gb := x, gc := y, gd := z \<rparr>) = J_s4 L M G"
  "J_sg_odd L M (G\<lparr> gb := x, gc := y, gd := z \<rparr>) = J_sg_odd L M G"
  "J_sg_even L M (G\<lparr> gb := x, gc := y, gd := z \<rparr>) = J_sg_even L M G"
  by (intro ext, simp add: J_s2_def J_s4_def J_sg_odd_def J_sg_even_def cong: if_cong)+

lemma J_coeff_free: "J L M (G\<lparr> gb := x, gc := y, gd := z \<rparr>) p q = J L M G p q"
  unfolding J_def by (simp only: J_bodies_coeff_free)

lemma read_sets_assigned:
  "{i. 1 \<le> i \<and> i \<le> 25} \<subseteq> dom (gb (startup L))"
  "{i. even i \<and> 2 \<le> i \<and> i \<le> 22} \<subseteq> dom (gc (startup L))"
  "{i. even i \<and> 2 \<le> i \<and> i \<le> 24} \<subseteq> dom (gd (startup L))"
  unfolding startup_dom Ne_def by (rule subsetI, simp)+

text \<open>
  C10.  The value and the diagnostics of \<open>Je\<close> depend on the coefficient arrays only
  through \<open>b\<close> at the indices \<open>1..25\<close>, \<open>c\<close> at the even indices \<open>2..22\<close> and \<open>d\<close> at
  the even indices \<open>2..24\<close>: arrays that agree there give the same result.  All these
  elements are assigned by \<open>Coeffs\<close>.  \<open>J\<close> does not depend on \<open>b\<close>, \<open>c\<close>, \<open>d\<close> at all
  (and \<open>CI\<close> takes no table), so no evaluator reads \<open>c\<close> at an odd index, or \<open>d[1]\<close>.
\<close>

theorem Je_reads_assigned:
  "(\<forall>G' :: ('a::{plus,minus,times,inverse}) tables.
         (\<forall>i. 1 \<le> i \<and> i \<le> 25 \<longrightarrow> gb G' i = gb G i) \<and>
         (\<forall>i. even i \<and> 2 \<le> i \<and> i \<le> 22 \<longrightarrow> gc G' i = gc G i) \<and>
         (\<forall>i. even i \<and> 2 \<le> i \<and> i \<le> 24 \<longrightarrow> gd G' i = gd G i)
         \<longrightarrow> Je L G' p q = Je L G p q) \<and>
   {i. 1 \<le> i \<and> i \<le> 25} \<subseteq> dom (gb (startup L)) \<and>
   {i. even i \<and> 2 \<le> i \<and> i \<le> 22} \<subseteq> dom (gc (startup L)) \<and>
   {i. even i \<and> 2 \<le> i \<and> i \<le> 24} \<subseteq> dom (gd (startup L)) \<and>
   J L M (G\<lparr> gb := x, gc := y, gd := z \<rparr>) p q = J L M G p q"
proof (intro conjI allI impI)
  fix G' :: "'a tables"
  assume h: "(\<forall>i. 1 \<le> i \<and> i \<le> 25 \<longrightarrow> gb G' i = gb G i) \<and>
         (\<forall>i. even i \<and> 2 \<le> i \<and> i \<le> 22 \<longrightarrow> gc G' i = gc G i) \<and>
         (\<forall>i. even i \<and> 2 \<le> i \<and> i \<le> 24 \<longrightarrow> gd G' i = gd G i)"
  show "Je L G' p q = Je L G p q"
    by (rule Je_reads) (use h in blast)+
next
  show "{i. 1 \<le> i \<and> i \<le> 25} \<subseteq> dom (gb (startup L))"
    by (rule read_sets_assigned)
  show "{i. even i \<and> 2 \<le> i \<and> i \<le> 22} \<subseteq> dom (gc (startup L))"
    by (rule read_sets_assigned)
  show "{i. even i \<and> 2 \<le> i \<and> i \<le> 24} \<subseteq> dom (gd (startup L))"
    by (rule read_sets_assigned)
  show "J L M (G\<lparr> gb := x, gc := y, gd := z \<rparr>) p q = J L M G p q"
    by (rule J_coeff_free)
qed

text \<open>The arrays after \<open>Coeffs\<close>, with \<open>c[1]\<close> and \<open>d[1]\<close> overwritten, give the same
  \<open>Je\<close> at the default point.\<close>

theorem Je_reads_assigned_witness:
  "Je RL ((startup RL)\<lparr> gc := (gc (startup RL))(1 \<mapsto> 7), gd := (gd (startup RL))(1 \<mapsto> 7) \<rparr>) 5 1
     = Je RL (startup RL) 5 1"
proof -
  let ?G' = "(startup RL)\<lparr> gc := (gc (startup RL))(1 \<mapsto> 7), gd := (gd (startup RL))(1 \<mapsto> 7) \<rparr>"
  have odd1: "\<And>i::nat. even i \<Longrightarrow> i \<noteq> 1" by auto
  have b: "\<forall>i. 1 \<le> i \<and> i \<le> 25 \<longrightarrow> gb ?G' i = gb (startup RL) i" by simp
  have c: "\<forall>i. even i \<and> 2 \<le> i \<and> i \<le> 22 \<longrightarrow> gc ?G' i = gc (startup RL) i"
    by (simp add: odd1)
  have d: "\<forall>i. even i \<and> 2 \<le> i \<and> i \<le> 24 \<longrightarrow> gd ?G' i = gd (startup RL) i"
    by (simp add: odd1)
  have "\<forall>G'. (\<forall>i. 1 \<le> i \<and> i \<le> 25 \<longrightarrow> gb G' i = gb (startup RL) i) \<and>
        (\<forall>i. even i \<and> 2 \<le> i \<and> i \<le> 22 \<longrightarrow> gc G' i = gc (startup RL) i) \<and>
        (\<forall>i. even i \<and> 2 \<le> i \<and> i \<le> 24 \<longrightarrow> gd G' i = gd (startup RL) i)
        \<longrightarrow> Je RL G' 5 1 = Je RL (startup RL) 5 1"
    using Je_reads_assigned [where G = "startup RL" and L = RL and p = 5 and q = 1]
    by (rule conjunct1)
  then have "(\<forall>i. 1 \<le> i \<and> i \<le> 25 \<longrightarrow> gb ?G' i = gb (startup RL) i) \<and>
        (\<forall>i. even i \<and> 2 \<le> i \<and> i \<le> 22 \<longrightarrow> gc ?G' i = gc (startup RL) i) \<and>
        (\<forall>i. even i \<and> 2 \<le> i \<and> i \<le> 24 \<longrightarrow> gd ?G' i = gd (startup RL) i)
        \<longrightarrow> Je RL ?G' 5 1 = Je RL (startup RL) 5 1"
    by (rule spec)
  then show ?thesis
    by (rule mp) (intro conjI b c d)
qed

subsection \<open>The arithmetic with a not-a-number\<close>

lemma DL_sel:
  "lit DL r = Fin r" "fsqrt DL = lift1 sqrt" "fatan DL = lift1 arctan" "fatan2 DL = lift2 atan2"
  "fexp DL = lift1 exp" "flog DL = lift1 ln" "fcos DL = lift1 cos" "fsin DL = lift1 sin"
  "fpow DL x n = (if n = 0 then Fin 1 else lift1 (\<lambda>a. a ^ n) x)" "fisnan DL x = (x = NaN)"
  by (simp_all add: DL_def)

lemma lift_NaN: "lift1 f NaN = NaN" "lift2 g NaN y = NaN" "lift2 g x NaN = NaN"
  by (simp_all add: lift1_def lift2_def split: dbl.splits)

lemma dbl_NaN:
  "x + NaN = NaN" "NaN + x = NaN" "x - NaN = NaN" "NaN - x = NaN"
  "x * NaN = NaN" "NaN * x = NaN" "x / NaN = NaN" "NaN / x = NaN" "- NaN = NaN"
  by (simp_all add: plus_dbl_def minus_dbl_def times_dbl_def divide_dbl_def uminus_dbl_def lift_NaN)

subsection \<open>The diagnostics of \<open>Je\<close>\<close>

lemma Je_fst:
  "fst (Je L G p q) =
     concat (map (\<lambda>n.
        if fisnan L (fpow L (fsqrt L (p * p + q * q)) n)
           \<or> fisnan L (fcos L (cv L (int n) * fatan2 L q p))
           \<or> fisnan L (fsin L (cv L (int n) * fatan2 L q p))
        then [[S ''Je : '', I (int n), D (fsqrt L (p * p + q * q)),
               D (fpow L (fsqrt L (p * p + q * q)) n)]]
        else []) [0..<32])"
  unfolding Je_def Let_def fst_conv
  by (rule arg_cong [where f = concat], rule map_cong, rule refl) simp

lemma Je_line_iff:
  assumes "n < 32"
  shows "(fisnan L (fpow L (fsqrt L (p * p + q * q)) n)
           \<or> fisnan L (fcos L (cv L (int n) * fatan2 L q p))
           \<or> fisnan L (fsin L (cv L (int n) * fatan2 L q p)))
         \<longleftrightarrow> [S ''Je : '', I (int n), D (fsqrt L (p * p + q * q)),
               D (fpow L (fsqrt L (p * p + q * q)) n)] \<in> set (fst (Je L G p q))"
  using assms by (auto simp add: Je_fst)

lemma Je_NaN_tables:
  "fsqrt DL (NaN * NaN + Fin 1 * Fin 1) = NaN" "fatan2 DL (Fin 1) NaN = NaN"
  "flog DL NaN = NaN" "fcos DL (x * NaN) = NaN" "fsin DL (x * NaN) = NaN"
  by (simp_all add: DL_sel dbl_NaN lift_NaN)

lemma Je_PQ_NaN:
  assumes "ap ! 25 = NaN" "ap ! 23 = NaN"
  shows "Je_P DL b c d lna th ap cthp sthp = NaN" "Je_Q DL b c d lna th ap cthp sthp = NaN"
  unfolding Je_P_def Je_Q_def by (simp_all only: assms dbl_NaN)

lemma concat_singletons: "concat (map (\<lambda>n. [g n]) xs) = map g xs"
  by (induction xs) simp_all

lemma Je_NaN_run:
  "Je DL G NaN (Fin 1)
     = (map (\<lambda>n. [S ''Je : '', I (int n), D NaN, D (if n = 0 then Fin 1 else NaN)]) [0..<32],
        NaN, NaN)"
proof -
  have "fst (Je DL G NaN (Fin 1))
      = map (\<lambda>n. [S ''Je : '', I (int n), D NaN, D (if n = 0 then Fin 1 else NaN)]) [0..<32]"
    unfolding Je_fst Je_NaN_tables
    by (simp only: DL_sel lift_NaN simp_thms if_True concat_singletons)
  moreover have "snd (Je DL G NaN (Fin 1)) = (NaN, NaN)"
    unfolding Je_def Let_def snd_conv Je_NaN_tables
    by (subst Je_PQ_NaN, simp add: DL_sel lift_NaN, simp add: DL_sel lift_NaN)+ simp
  ultimately show ?thesis by (simp add: prod_eq_iff)
qed

text \<open>
  C7.  In every arithmetic, \<open>Je\<close> writes the line of the index \<open>n\<close> exactly when
  \<open>ap[n]\<close>, \<open>cthp[n]\<close> or \<open>sthp[n]\<close> is a NaN, for each \<open>n\<close> from \<open>0\<close> to \<open>31\<close>, and it
  returns its lines together with a pair \<open>(P, Q)\<close> in every case: it has no \<open>exit\<close>.
  On the input \<open>p = NaN\<close>, \<open>q = 1\<close> it writes all \<open>32\<close> lines and returns
  \<open>(NaN, NaN)\<close>.
\<close>

theorem Je_tolerant:
  "(\<forall>n<32.
      (fisnan L (fpow L (fsqrt L (p * p + q * q)) n)
        \<or> fisnan L (fcos L (cv L (int n) * fatan2 L q p))
        \<or> fisnan L (fsin L (cv L (int n) * fatan2 L q p)))
      \<longleftrightarrow> [S ''Je : '', I (int n), D (fsqrt L (p * p + q * q)),
               D (fpow L (fsqrt L (p * p + q * q)) n)] \<in> set (fst (Je L G p q))) \<and>
   (\<exists>err P Q. Je L G p q = (err, P, Q)) \<and>
   Je DL (startup DL) NaN (Fin 1)
     = (map (\<lambda>n. [S ''Je : '', I (int n), D NaN, D (if n = 0 then Fin 1 else NaN)]) [0..<32],
        NaN, NaN)"
proof (intro conjI allI impI)
  fix n :: nat assume "n < 32"
  then show "(fisnan L (fpow L (fsqrt L (p * p + q * q)) n)
        \<or> fisnan L (fcos L (cv L (int n) * fatan2 L q p))
        \<or> fisnan L (fsin L (cv L (int n) * fatan2 L q p)))
      \<longleftrightarrow> [S ''Je : '', I (int n), D (fsqrt L (p * p + q * q)),
               D (fpow L (fsqrt L (p * p + q * q)) n)] \<in> set (fst (Je L G p q))"
    by (rule Je_line_iff)
next
  show "\<exists>err P Q. Je L G p q = (err, P, Q)"
    by (metis prod_cases3)
next
  show "Je DL (startup DL) NaN (Fin 1)
     = (map (\<lambda>n. [S ''Je : '', I (int n), D NaN, D (if n = 0 then Fin 1 else NaN)]) [0..<32],
        NaN, NaN)"
    by (rule Je_NaN_run)
qed

theorem Je_tolerant_witness:
  "(1::nat) < 32 \<and>
   [S ''Je : '', I 1, D NaN, D NaN] \<in> set (fst (Je DL (startup DL) NaN (Fin 1)))"
proof -
  have "\<forall>n<32.
      (fisnan DL (fpow DL (fsqrt DL (NaN * NaN + Fin 1 * Fin 1)) n)
        \<or> fisnan DL (fcos DL (cv DL (int n) * fatan2 DL (Fin 1) NaN))
        \<or> fisnan DL (fsin DL (cv DL (int n) * fatan2 DL (Fin 1) NaN)))
      \<longleftrightarrow> [S ''Je : '', I (int n), D (fsqrt DL (NaN * NaN + Fin 1 * Fin 1)),
               D (fpow DL (fsqrt DL (NaN * NaN + Fin 1 * Fin 1)) n)]
            \<in> set (fst (Je DL (startup DL) NaN (Fin 1)))"
    using Je_tolerant [where L = DL and p = NaN and q = "Fin 1" and G = "startup DL"]
    by (rule conjunct1)
  from this [rule_format, of 1] show ?thesis
    by (simp add: DL_sel lift_NaN dbl_NaN)
qed

subsection \<open>\<open>CI\<close> in exact arithmetic\<close>

lemma toC_ops:
  "toC (c_times_d z x) = toC z * of_real x"
  "toC (c_minus_d z x) = toC z - of_real x"
  "toC (c_plus_c z w) = toC z + toC w"
  "toC (d_plus_c x z) = of_real x + toC z"
  "toC (fcsqrt RL z) = csqrt (toC z)"
  "toC (ci RL) = \<i>"
  by (simp_all add: toC_def c_times_d_def c_minus_d_def c_plus_c_def d_plus_c_def ci_def RL_def
      complex_eq_iff)

lemma CI_weight_RL:
  "(if i = 0 \<or> i = N then lit RL 1 else cv RL (int (2 * (i mod 2) + 2))) = simpson_weight N i"
  by (simp add: simpson_weight_def RL_sel RL_consts odd_iff_mod_2_eq_one)

lemma CI_step_RL:
  "toC (CI_step RL p q N dmu i acc)
     = toC acc + of_real (simpson_weight N i) * carson_integrand p q (real i * dmu)"
  unfolding CI_step_def Let_def CI_weight_RL toC_ops
  by (simp add: RL_sel RL_consts carson_integrand_def)

lemma CI_loop_RL:
  "toC (fold (CI_step RL p q N dmu) [0..<n] acc)
     = toC acc + (\<Sum>i<n. of_real (simpson_weight N i) * carson_integrand p q (real i * dmu))"
  by (induction n) (simp_all add: CI_step_RL)

lemma CI_RL: "toC (CI RL p q) = simpson_sum p q"
proof -
  have z: "toC (lit RL 0, lit RL 0) = 0"
    by (simp add: toC_def RL_sel complex_eq_iff)
  have d: "lit RL 10 / cv RL (int 10000) = 10 / real 10000"
    by (simp add: RL_sel RL_consts)
  have s: "{..<10000 + 1} = {0..10000::nat}"
    by auto
  show ?thesis
    unfolding CI_def simpson_sum_def Let_def toC_ops CI_loop_RL z d s
    by (simp only: add_0_left RL_sel)
qed

text \<open>
  C2.  In exact arithmetic the value of \<open>CI(p, q)\<close> is the composite Simpson sum over
  \<open>[0, 10]\<close> with \<open>10000\<close> intervals of the integrand
  \<open>(sqrt(mu^2 + i) - mu) * exp(- p * mu) * cos(q * mu)\<close>, with the weight \<open>1\<close> at
  both ends, \<open>4\<close> at odd and \<open>2\<close> at even inner indices, times a third of the step.
\<close>

theorem CI_is_simpson_sum:
  "toC (CI RL p q) = simpson_sum p q \<and>
   simpson_sum p q
     = (\<Sum>i = 0..10000.
          of_real (if i = 0 \<or> i = 10000 then 1 else if odd i then 4 else 2)
            * ((csqrt (of_real ((real i * (10 / 10000)) * (real i * (10 / 10000))) + \<i>)
                  - of_real (real i * (10 / 10000)))
                * of_real (exp (- p * (real i * (10 / 10000))))
                * of_real (cos (q * (real i * (10 / 10000))))))
        * of_real ((10 / 10000) / 3)"
  by (simp only: CI_RL simpson_sum_def Let_def simpson_weight_def carson_integrand_def
      of_nat_numeral simp_thms)

subsection \<open>How far \<open>CI\<close> and \<open>Je\<close> can agree\<close>
























subsection \<open>Loops that may end the run\<close>

lemma thn_simps [simp]: "thn (Inl e) k = Inl e" "thn (Inr s) k = k s"
  by (simp_all add: thn_def)

lemma forM_append: "forM (xs @ ys) body s = thn (forM xs body s) (forM ys body)"
  by (induction xs arbitrary: s) (simp_all add: thn_def split: sum.splits)

lemma forM_snoc: "forM (xs @ [i]) body s = thn (forM xs body s) (body i)"
  by (simp add: forM_append thn_def split: sum.splits)

lemma forM_upt_Suc:
  "lo \<le> hi \<Longrightarrow> forM [lo..<Suc hi] body s = thn (forM [lo..<hi] body s) (body hi)"
  by (simp add: forM_snoc)

lemma isl_thn: "isl m \<Longrightarrow> isl (thn m k)" "(\<And>s. isl (k s)) \<Longrightarrow> isl (thn m k)"
  by (cases m; simp)+

lemma forM_Inr_inv:
  assumes "\<And>i s. lo \<le> i \<Longrightarrow> i < hi \<Longrightarrow> Inv i s \<Longrightarrow> \<exists>s'. body i s = Inr s' \<and> Inv (Suc i) s'"
  shows "lo \<le> k \<Longrightarrow> k \<le> hi \<Longrightarrow> Inv lo s \<Longrightarrow> \<exists>s'. forM [lo..<k] body s = Inr s' \<and> Inv k s'"
proof (induction k)
  case 0
  then show ?case by simp
next
  case (Suc k)
  show ?case
  proof (cases "lo = Suc k")
    case True
    then show ?thesis using Suc.prems by simp
  next
    case False
    then have lo: "lo \<le> k" using Suc.prems by simp
    then obtain s1 where s1: "forM [lo..<k] body s = Inr s1" "Inv k s1"
      using Suc by auto
    obtain s2 where s2: "body k s1 = Inr s2" "Inv (Suc k) s2"
      using assms [of k s1] lo Suc.prems s1 by auto
    show ?thesis using s1 s2 by (simp only: forM_upt_Suc [OF lo] thn_simps) simp
  qed
qed

subsection \<open>The reads of \<open>J\<close> past the end of its arrays\<close>

lemma rd_in: "i < length xs \<Longrightarrow> rd M a xs i k = k (xs ! i)"
  by (simp add: rd_def)

lemma rdg_in: "i < sz \<Longrightarrow> rdg L M a sz m i k = k (val L m i)"
  by (simp add: rdg_def)

lemma rd_strict_out: "length xs \<le> i \<Longrightarrow> rd strict a xs i k = Inl (OutOfBounds a i)"
  by (simp add: rd_def strict_def)

lemma isl_rdg: "(\<And>v. isl (k v)) \<Longrightarrow> isl (rdg L strict a sz m i k)"
  by (simp add: rdg_def strict_def)

lemma upt_8: "[0..<8] = [0..<7] @ [7]"
proof -
  have "[0..<Suc 7] = [0..<7] @ [7]" by (rule upt_Suc_append) simp
  moreover have "Suc 7 = 8" by simp
  ultimately show ?thesis by (simp only:)
qed

lemma J_s4_last_strict:
  "length rhp = 32 \<Longrightarrow> isl (J_s4 L strict G rhp cthp sthp 7 st)"
  by (cases st) (simp add: J_s4_def isl_rdg rd_strict_out)

lemma J_s4_loop_strict:
  assumes "length rhp = 32"
  shows "isl (forM [0..<Ns] (J_s4 L strict G rhp cthp sthp) s)"
proof -
  have "[0..<Ns] = [0..<7] @ [7]" unfolding Ns_def by (rule upt_8)
  then show ?thesis
    by (simp only: forM_snoc) (rule isl_thn(2), rule J_s4_last_strict [OF assms])
qed

lemma J_strict_never_returns: "isl (J L strict G p q)"
  unfolding J_def Let_def
  by (rule isl_thn(2), simp only: split_def, rule isl_thn(1), rule J_s4_loop_strict) simp

lemma J_s2_RL_step:
  assumes "nf + 1 < Nf" "2 + 4 * ns < 32" "length rhp = 32" "length cthp = 32" "length sthp = 32"
  shows "\<exists>a b. J_s2 RL M G rhp cthp sthp ns (s2, s2p, nf, sg) = Inr (a, b, nf + 2, - sg)"
  using assms by (simp add: J_s2_def rdg_in rd_in RL_sel Let_def)

lemma J_s4_RL_step:
  assumes "nf + 1 < Nf" "4 + 4 * ns < 32" "length rhp = 32" "length cthp = 32" "length sthp = 32"
  shows "\<exists>a b. J_s4 RL M G rhp cthp sthp ns (s4, s4p, nf, sg) = Inr (a, b, nf + 2, - sg)"
  using assms by (simp add: J_s4_def rdg_in rd_in RL_sel Let_def)

lemma J_s2_RL_loop:
  assumes "length rhp = 32" "length cthp = 32" "length sthp = 32"
  shows "\<exists>s'. forM [0..<Ns] (J_s2 RL M G rhp cthp sthp) (a, b, 1, sg) = Inr s'"
proof -
  have "\<exists>s'. forM [0..<Ns] (J_s2 RL M G rhp cthp sthp) (a, b, 1, sg) = Inr s'
           \<and> fst (snd (snd s')) = 1 + 2 * Ns"
  proof (rule forM_Inr_inv [where hi = Ns and Inv = "\<lambda>i s. fst (snd (snd s)) = 1 + 2 * i"])
    fix i and s :: "real \<times> real \<times> nat \<times> int"
    assume i: "i < Ns" and inv: "fst (snd (snd s)) = 1 + 2 * i"
    obtain s2 s2p nf g where s: "s = (s2, s2p, nf, g)" by (cases s)
    have "nf + 1 < Nf" "2 + 4 * i < 32" using i inv by (simp_all add: s Ns_def Nf_def)
    from J_s2_RL_step [OF this assms, of M G s2 s2p g]
    show "\<exists>s'. J_s2 RL M G rhp cthp sthp i s = Inr s' \<and> fst (snd (snd s')) = 1 + 2 * Suc i"
      using inv by (auto simp add: s)
  qed simp_all
  then show ?thesis by blast
qed

lemma J_s4_RL_loop_strict:
  assumes "length rhp = 32" "length cthp = 32" "length sthp = 32"
  shows "forM [0..<Ns] (J_s4 RL strict G rhp cthp sthp) (a, b, 2, sg) = Inl (OutOfBounds A_rhp 32)"
proof -
  have "\<exists>s'. forM [0..<7] (J_s4 RL strict G rhp cthp sthp) (a, b, 2, sg) = Inr s'
           \<and> fst (snd (snd s')) = 2 + 2 * 7"
  proof (rule forM_Inr_inv [where hi = 7 and Inv = "\<lambda>i s. fst (snd (snd s)) = 2 + 2 * i"])
    fix i and s :: "real \<times> real \<times> nat \<times> int"
    assume i: "i < 7" and inv: "fst (snd (snd s)) = 2 + 2 * i"
    obtain s4 s4p nf g where s: "s = (s4, s4p, nf, g)" by (cases s)
    have "nf + 1 < Nf" "4 + 4 * i < 32" using i inv by (simp_all add: s Nf_def)
    from J_s4_RL_step [OF this assms, of strict G s4 s4p g]
    show "\<exists>s'. J_s4 RL strict G rhp cthp sthp i s = Inr s' \<and> fst (snd (snd s')) = 2 + 2 * Suc i"
      using inv by (auto simp add: s)
  qed simp_all
  then obtain s' where
    s': "forM [0..<7] (J_s4 RL strict G rhp cthp sthp) (a, b, 2, sg) = Inr s'"
        "fst (snd (snd s')) = 2 + 2 * 7"
    by blast
  obtain s4 s4p nf g where c: "s' = (s4, s4p, nf, g)" by (cases s')
  have "nf = 16" using s'(2) by (simp add: c)
  then have pre: "forM [0..<7] (J_s4 RL strict G rhp cthp sthp) (a, b, 2, sg) = Inr (s4, s4p, 16, g)"
    using s'(1) by (simp add: c)
  have last: "J_s4 RL strict G rhp cthp sthp 7 (s4, s4p, 16, g) = Inl (OutOfBounds A_rhp 32)"
    using assms by (simp add: J_s4_def rdg_in Nf_def rd_strict_out)
  have "[0..<Ns] = [0..<7] @ [7]" unfolding Ns_def by (rule upt_8)
  then show ?thesis by (simp only: forM_snoc pre thn_simps last)
qed

lemma J_RL_strict: "J RL strict G p q = Inl (OutOfBounds A_rhp 32)"
proof -
  let ?rh = "lit RL (1 / 2) * fsqrt RL (p * p + q * q)"
  let ?rhp = "map (\<lambda>n. fpow RL ?rh n) [0..<32]"
  let ?cthp = "map (\<lambda>n. fcos RL (cv RL (int n) * fatan2 RL q p)) [0..<32]"
  let ?sthp = "map (\<lambda>n. fsin RL (cv RL (int n) * fatan2 RL q p)) [0..<32]"
  have "\<exists>s'. forM [0..<Ns] (J_s2 RL strict G ?rhp ?cthp ?sthp) (lit RL 0, lit RL 0, 1, 1) = Inr s'"
    by (rule J_s2_RL_loop) simp_all
  then obtain s1 where
    s1: "forM [0..<Ns] (J_s2 RL strict G ?rhp ?cthp ?sthp) (lit RL 0, lit RL 0, 1, 1) = Inr s1"
    by blast
  have s2: "forM [0..<Ns] (J_s4 RL strict G ?rhp ?cthp ?sthp) (lit RL 0, lit RL 0, 2, 1)
              = Inl (OutOfBounds A_rhp 32)"
    by (rule J_s4_RL_loop_strict) simp_all
  show ?thesis
    unfolding J_def Let_def by (simp only: s1 s2 thn_simps split_def)
qed

subsection \<open>The NaN checks of \<open>J\<close>\<close>

lemma J_s2_NanExit:
  "J_s2 L M G rhp cthp sthp ns st = Inl (NanExit d) \<Longrightarrow>
   \<exists>x cs sn g nf f0 f1 a b.
      d = [S ''2 2p : '', I (int ns), I (int (2 + 4 * ns)), D x, D cs, D sn, I g, I nf,
           D f0, D f1, D a, D b] \<and> (fisnan L a \<or> fisnan L b)"
  by (cases st)
     (auto simp add: J_s2_def rd_def rdg_def Let_def split: if_splits option.splits)

lemma J_s4_NanExit:
  "J_s4 L M G rhp cthp sthp ns st = Inl (NanExit d) \<Longrightarrow>
   d = [S ''4 4p : '', I (int ns), I (int (4 + 4 * ns))]"
  by (cases st)
     (auto simp add: J_s4_def rd_def rdg_def Let_def split: if_splits option.splits)

lemma J_sg_odd_NanExit:
  "J_sg_odd L M G rp cthp off label ns st = Inl (NanExit d) \<Longrightarrow>
   d = [S label, I (int ns), I (int (off + 4 * ns))]"
  by (cases st)
     (auto simp add: J_sg_odd_def rd_def rdg_def Let_def split: if_splits option.splits)

lemma J_sg_even_NanExit:
  "J_sg_even L M G rhp cthp off label ns st = Inl (NanExit d) \<Longrightarrow>
   d = [S label, I (int ns), I (int (off + 4 * ns))]"
  by (cases st)
     (auto simp add: J_sg_even_def rd_def rdg_def Let_def split: if_splits option.splits)

lemma J_s2_NaN_run:
  "J_s2 DL strict G (map (\<lambda>n. fpow DL (lit DL (1 / 2) * NaN) n) [0..<32])
      (map (\<lambda>n. fcos DL (cv DL (int n) * NaN)) [0..<32])
      (map (\<lambda>n. fsin DL (cv DL (int n) * NaN)) [0..<32]) 0 (lit DL 0, lit DL 0, 1, 1)
     = Inl (NanExit [S ''2 2p : '', I 0, I 2, D NaN, D NaN, D NaN, I (- 1), I 3,
                     D (val DL (gF G) 3), D (val DL (gF G) 4), D NaN, D NaN])"
proof -
  have four: "Suc (Suc (Suc (Suc 0))) = 4" by simp
  show ?thesis
    by (simp add: J_s2_def rdg_def rd_def Nf_def Let_def dbl_NaN lift_NaN DL_sel
        numeral_3_eq_3 four)
qed

lemma J_NaN_run:
  "J DL strict G NaN (Fin 1)
     = Inl (NanExit [S ''2 2p : '', I 0, I 2, D NaN, D NaN, D NaN, I (- 1), I 3,
                     D (val DL (gF G) 3), D (val DL (gF G) 4), D NaN, D NaN])"
proof -
  have r: "fsqrt DL (NaN * NaN + Fin 1 * Fin 1) = NaN" "fatan2 DL (Fin 1) NaN = NaN"
    by (simp_all add: DL_sel dbl_NaN lift_NaN)
  have l: "[0..<Ns] = 0 # [1..<Ns]" by (simp add: Ns_def upt_conv_Cons)
  show ?thesis
    unfolding J_def Let_def r l forM.simps J_s2_NaN_run by simp
qed

lemma forM_Inl: "forM xs body s = Inl e \<Longrightarrow> \<exists>i s'. i \<in> set xs \<and> body i s' = Inl e"
proof (induction xs arbitrary: s)
  case Nil
  then show ?case by simp
next
  case (Cons a xs)
  show ?case
  proof (cases "body a s")
    case (Inl e')
    then show ?thesis using Cons.prems by auto
  next
    case (Inr s1)
    then have "forM xs body s1 = Inl e" using Cons.prems by simp
    from Cons.IH [OF this] show ?thesis by auto
  qed
qed

lemma J_s2_loop_exit:
  assumes "forM [0..<Ns] (J_s2 L M G rhp cthp sthp) s = Inl (NanExit d)"
  shows "\<exists>ns<Ns. \<exists>x cs sn g nf f0 f1 a b.
      d = [S ''2 2p : '', I (int ns), I (int (2 + 4 * ns)), D x, D cs, D sn, I g, I nf,
           D f0, D f1, D a, D b] \<and> (fisnan L a \<or> fisnan L b)"
proof -
  from forM_Inl [OF assms] obtain i s' where
    "i \<in> set [0..<Ns]" "J_s2 L M G rhp cthp sthp i s' = Inl (NanExit d)" by blast
  then show ?thesis using J_s2_NanExit [of L M G rhp cthp sthp i s' d] by auto
qed

lemma J_s4_loop_exit:
  assumes "forM [0..<Ns] (J_s4 L M G rhp cthp sthp) s = Inl (NanExit d)"
  shows "\<exists>ns<Ns. d = [S ''4 4p : '', I (int ns), I (int (4 + 4 * ns))]"
proof -
  from forM_Inl [OF assms] obtain i s' where
    "i \<in> set [0..<Ns]" "J_s4 L M G rhp cthp sthp i s' = Inl (NanExit d)" by blast
  then show ?thesis using J_s4_NanExit [of L M G rhp cthp sthp i s' d] by auto
qed

lemma J_sg_odd_loop_exit:
  assumes "forM [0..<Ns] (J_sg_odd L M G rp cthp off label) s = Inl (NanExit d)"
  shows "\<exists>ns<Ns. d = [S label, I (int ns), I (int (off + 4 * ns))]"
proof -
  from forM_Inl [OF assms] obtain i s' where
    "i \<in> set [0..<Ns]" "J_sg_odd L M G rp cthp off label i s' = Inl (NanExit d)" by blast
  then show ?thesis using J_sg_odd_NanExit [of L M G rp cthp off label i s' d] by auto
qed

lemma J_sg_even_loop_exit:
  assumes "forM [0..<Ns] (J_sg_even L M G rhp cthp off label) s = Inl (NanExit d)"
  shows "\<exists>ns<Ns. d = [S label, I (int ns), I (int (off + 4 * ns))]"
proof -
  from forM_Inl [OF assms] obtain i s' where
    "i \<in> set [0..<Ns]" "J_sg_even L M G rhp cthp off label i s' = Inl (NanExit d)" by blast
  then show ?thesis using J_sg_even_NanExit [of L M G rhp cthp off label i s' d] by auto
qed

lemma J_exit_forms:
  assumes "J L M G p q = Inl (NanExit d)"
  shows "\<exists>ns<Ns.
      (\<exists>x cs sn g nf f0 f1 a b.
          d = [S ''2 2p : '', I (int ns), I (int (2 + 4 * ns)), D x, D cs, D sn, I g, I nf,
               D f0, D f1, D a, D b] \<and> (fisnan L a \<or> fisnan L b))
      \<or> d = [S ''4 4p : '', I (int ns), I (int (4 + 4 * ns))]
      \<or> d = [S ''g1 : '', I (int ns), I (int (1 + 4 * ns))]
      \<or> d = [S ''g3 : '', I (int ns), I (int (3 + 4 * ns))]
      \<or> d = [S ''g2 : '', I (int ns), I (int (2 + 4 * ns))]
      \<or> d = [S ''g4 : '', I (int ns), I (int (4 + 4 * ns))]"
proof -
  let ?rp = "map (\<lambda>n. fpow L (fsqrt L (p * p + q * q)) n) [0..<32]"
  let ?rhp = "map (\<lambda>n. fpow L (lit L (1 / 2) * fsqrt L (p * p + q * q)) n) [0..<32]"
  let ?cthp = "map (\<lambda>n. fcos L (cv L (int n) * fatan2 L q p)) [0..<32]"
  let ?sthp = "map (\<lambda>n. fsin L (cv L (int n) * fatan2 L q p)) [0..<32]"
  let ?l1 = "forM [0..<Ns] (J_s2 L M G ?rhp ?cthp ?sthp) (lit L 0, lit L 0, 1, 1)"
  let ?l2 = "forM [0..<Ns] (J_s4 L M G ?rhp ?cthp ?sthp) (lit L 0, lit L 0, 2, 1)"
  let ?l3 = "forM [0..<Ns] (J_sg_odd L M G ?rp ?cthp 1 ''g1 : '') (lit L 0, 1, 3)"
  let ?l4 = "forM [0..<Ns] (J_sg_odd L M G ?rp ?cthp 3 ''g3 : '') (lit L 0, 1, 5)"
  let ?l5 = "forM [0..<Ns] (J_sg_even L M G ?rhp ?cthp 2 ''g2 : '') (lit L 0, 1, 2, 1)"
  let ?l6 = "forM [0..<Ns] (J_sg_even L M G ?rhp ?cthp 4 ''g4 : '') (lit L 0, 1, 3, 2)"
  note a = assms [unfolded J_def Let_def split_def]
  have "?l1 = Inl (NanExit d) \<or> ?l2 = Inl (NanExit d) \<or> ?l3 = Inl (NanExit d)
      \<or> ?l4 = Inl (NanExit d) \<or> ?l5 = Inl (NanExit d) \<or> ?l6 = Inl (NanExit d)"
  proof (cases ?l1)
    case Inl
    then show ?thesis using a by (simp only: thn_simps) simp
  next
    case r1: Inr
    show ?thesis
    proof (cases ?l2)
      case Inl
      then show ?thesis using a by (simp only: r1 thn_simps) simp
    next
      case r2: Inr
      show ?thesis
      proof (cases ?l3)
        case Inl
        then show ?thesis using a by (simp only: r1 r2 thn_simps) simp
      next
        case r3: Inr
        show ?thesis
        proof (cases ?l4)
          case Inl
          then show ?thesis using a by (simp only: r1 r2 r3 thn_simps) simp
        next
          case r4: Inr
          show ?thesis
          proof (cases ?l5)
            case Inl
            then show ?thesis using a by (simp only: r1 r2 r3 r4 thn_simps) simp
          next
            case r5: Inr
            show ?thesis
            proof (cases ?l6)
              case Inl
              then show ?thesis using a by (simp only: r1 r2 r3 r4 r5 thn_simps) simp
            next
              case r6: Inr
              show ?thesis using a by (simp only: r1 r2 r3 r4 r5 r6 thn_simps) simp
            qed
          qed
        qed
      qed
    qed
  qed
  then show ?thesis
  proof (elim disjE)
    assume "?l1 = Inl (NanExit d)"
    from J_s2_loop_exit [OF this] obtain ns where "ns < Ns"
      "\<exists>x cs sn g nf f0 f1 a b.
          d = [S ''2 2p : '', I (int ns), I (int (2 + 4 * ns)), D x, D cs, D sn, I g, I nf,
               D f0, D f1, D a, D b] \<and> (fisnan L a \<or> fisnan L b)" by blast
    then show ?thesis by (intro exI [of _ ns] conjI disjI1)
  next
    assume "?l2 = Inl (NanExit d)"
    from J_s4_loop_exit [OF this] obtain ns where ns: "ns < Ns"
      "d = [S ''4 4p : '', I (int ns), I (int (4 + 4 * ns))]" by blast
    show ?thesis by (rule exI [of _ ns]) (simp add: ns)
  next
    assume "?l3 = Inl (NanExit d)"
    from J_sg_odd_loop_exit [OF this] obtain ns where ns: "ns < Ns"
      "d = [S ''g1 : '', I (int ns), I (int (1 + 4 * ns))]" by blast
    show ?thesis by (rule exI [of _ ns]) (simp add: ns)
  next
    assume "?l4 = Inl (NanExit d)"
    from J_sg_odd_loop_exit [OF this] obtain ns where ns: "ns < Ns"
      "d = [S ''g3 : '', I (int ns), I (int (3 + 4 * ns))]" by blast
    show ?thesis by (rule exI [of _ ns]) (simp add: ns)
  next
    assume "?l5 = Inl (NanExit d)"
    from J_sg_even_loop_exit [OF this] obtain ns where ns: "ns < Ns"
      "d = [S ''g2 : '', I (int ns), I (int (2 + 4 * ns))]" by blast
    show ?thesis by (rule exI [of _ ns]) (simp add: ns)
  next
    assume "?l6 = Inl (NanExit d)"
    from J_sg_even_loop_exit [OF this] obtain ns where ns: "ns < Ns"
      "d = [S ''g4 : '', I (int ns), I (int (4 + 4 * ns))]" by blast
    show ?thesis by (rule exI [of _ ns]) (simp add: ns)
  qed
qed

subsection \<open>A run of \<open>J\<close> whose powers overflow\<close>

text \<open>The input is \<open>p = 9e12\<close>, \<open>q = 2e13\<close>.  Then \<open>rh\<^sup>2 = 1.2025e26\<close>, the even powers
  \<open>rh^n\<close> are finite up to \<open>n = 22\<close> and infinite from \<open>n = 24\<close>, and the angle is
  \<open>arctan (20 / 9)\<close>,
  so that \<open>cos (n * th)\<close> and \<open>sin (n * th)\<close> have the signs of the real and the imaginary
  part of \<open>(9 + 20 i)^n\<close>.\<close>

lemma dbl_max_ge: "1 \<le> dbl_max" "0 < dbl_max"
  by (simp_all add: dbl_max_def)

lemma fact_149: "fact 149 \<le> dbl_max"
  by (simp add: dbl_max_def fact_numeral)

lemma XL_sel:
  "lit XL = ovf" "fsqrt XL = xsqrt" "fatan2 XL = xatan2" "flog XL = xlog" "fcos XL = xcos"
  "fsin XL = xsin" "fpow XL = xpow" "fisnan XL x = (x = Nan)"
  by (simp_all add: XL_def)

lemma ovf_Num: "\<bar>r\<bar> \<le> dbl_max \<Longrightarrow> ovf r = Num r"
  by (auto simp add: ovf_def)

lemma ovf_PInf: "dbl_max < r \<Longrightarrow> ovf r = PInf"
  by (simp add: ovf_def)

lemma ovf_small [simp]: "ovf 0 = Num 0" "ovf 1 = Num 1" "ovf (- 1) = Num (- 1)" "ovf (1 / 2) = Num (1 / 2)"
  using dbl_max_ge by (simp_all add: ovf_Num)

lemma xdbl_ops:
  "Num a + Num b = ovf (a + b)"
  "Num a * Num b = ovf (a * b)"
  "b \<noteq> 0 \<Longrightarrow> Num a / Num b = ovf (a / b)"
  "x + Nan = Nan" "Nan + x = Nan"
  "PInf + PInf = PInf" "MInf + MInf = MInf" "PInf + MInf = Nan" "MInf + PInf = Nan"
  "Num a + PInf = PInf" "Num a + MInf = MInf"
  "0 < a \<Longrightarrow> Num a * PInf = PInf" "a < 0 \<Longrightarrow> Num a * PInf = MInf"
  "0 < b \<Longrightarrow> PInf * Num b = PInf" "b < 0 \<Longrightarrow> PInf * Num b = MInf"
  "0 < b \<Longrightarrow> MInf * Num b = MInf" "b < 0 \<Longrightarrow> MInf * Num b = PInf"
  by (cases x; simp add: plus_xdbl_def times_xdbl_def divide_xdbl_def)+

lemma cv_XL: "\<bar>real_of_int n\<bar> \<le> dbl_max \<Longrightarrow> cv XL n = Num (real_of_int n)"
  by (simp add: cv_def XL_sel ovf_Num)

lemma xpow_Num: "xpow (Num a) n = ovf (a ^ n)"
  by (cases n) simp_all

lemma fact_le_max: "n < Nf \<Longrightarrow> fact n \<le> dbl_max"
proof -
  assume "n < Nf"
  then have "n \<le> 149" by (simp add: Nf_def)
  then have "(fact n :: real) \<le> fact 149" by (rule fact_mono)
  with fact_149 show ?thesis by simp
qed

lemma Factorials_F_XL: "n < Nf \<Longrightarrow> gF (Factorials XL G) n = Some (Num (fact n))"
proof (induction n)
  case 0
  show ?case by (simp add: Factorials_F0 XL_sel)
next
  case (Suc n)
  then have "gF (Factorials XL G) n = Some (Num (fact n))" by simp
  then have v: "val XL (gF (Factorials XL G)) n = Num (fact n)" by (rule val_Some)
  have "real (Suc n) \<le> real (fact (Suc n))"
    by (simp only: of_nat_le_iff fact_ge_self)
  also have "\<dots> = fact (Suc n)" by (rule of_nat_fact)
  also note fact_le_max [OF Suc.prems]
  finally have n: "real (Suc n) \<le> dbl_max" .
  have c: "cv XL (int (Suc n)) = Num (real (Suc n))"
    using cv_XL [of "int (Suc n)"] n by simp
  have "real (Suc n) * fact n = fact (Suc n)" by simp
  then have m: "Num (real (Suc n)) * Num (fact n) = Num (fact (Suc n))"
    unfolding xdbl_ops using fact_le_max [OF Suc.prems] by (simp only: ovf_Num abs_of_nonneg fact_ge_zero)
  show ?case
    using Factorials_F_rec [of "Suc n" XL G] Suc.prems by (simp add: v c m del: fact_Suc of_nat_Suc)
qed

lemma startup_F_XL: "n < Nf \<Longrightarrow> val XL (gF (startup XL)) n = Num (fact n)"
  unfolding startup_def by (simp add: Coeffs_frame Factorials_F_XL val_Some)

lemma run_r:
  "fsqrt XL (Num (9 * 10 ^ 12) * Num (9 * 10 ^ 12) + Num (2 * 10 ^ 13) * Num (2 * 10 ^ 13))
     = Num (sqrt (481 * 10 ^ 24))"
  by (simp add: XL_sel xdbl_ops ovf_Num dbl_max_def)

lemma sqrt_481_le: "sqrt (481 * 10 ^ 24) \<le> 10 ^ 14"
  by (rule real_le_lsqrt) simp_all

lemma run_rh: "lit XL (1 / 2) * Num (sqrt (481 * 10 ^ 24)) = Num (sqrt (481 * 10 ^ 24) / 2)"
proof -
  have "(10::real) ^ 14 \<le> dbl_max" by (simp add: dbl_max_def)
  with sqrt_481_le have "\<bar>sqrt (481 * 10 ^ 24) / 2\<bar> \<le> dbl_max" by simp
  then have "ovf (1 / 2 * sqrt (481 * 10 ^ 24)) = Num (sqrt (481 * 10 ^ 24) / 2)"
    using ovf_Num [of "sqrt (481 * 10 ^ 24) / 2"] by simp
  then show ?thesis
    by (simp only: XL_sel ovf_small xdbl_ops)
qed

lemma run_th: "fatan2 XL (Num (2 * 10 ^ 13)) (Num (9 * 10 ^ 12)) = Num (arctan (20 / 9))"
  by (simp add: XL_sel atan2_def)

lemma rh_sq: "(sqrt (481 * 10 ^ 24) / 2) ^ (2 * m) = (12025 * 10 ^ 22) ^ m"
proof -
  have "(sqrt (481 * 10 ^ 24) / 2)\<^sup>2 = (12025 * 10 ^ 22 :: real)"
    by (simp add: power_divide)
  then show ?thesis by (simp only: power_mult)
qed

lemma rh_finite:
  assumes "m \<le> 11"
  shows "xpow (Num (sqrt (481 * 10 ^ 24) / 2)) (2 * m) = Num ((12025 * 10 ^ 22) ^ m)"
    and "(12025 * 10 ^ 22 :: real) ^ m \<le> (12025 * 10 ^ 22) ^ 11"
proof -
  show le: "(12025 * 10 ^ 22 :: real) ^ m \<le> (12025 * 10 ^ 22) ^ 11"
    by (rule power_increasing [OF assms]) simp
  have "(12025 * 10 ^ 22 :: real) ^ 11 \<le> dbl_max" by (simp add: dbl_max_def)
  with le have "\<bar>(12025 * 10 ^ 22 :: real) ^ m\<bar> \<le> dbl_max" by simp
  then show "xpow (Num (sqrt (481 * 10 ^ 24) / 2)) (2 * m) = Num ((12025 * 10 ^ 22) ^ m)"
    unfolding xpow_Num rh_sq by (rule ovf_Num)
qed

lemma rh_overflow:
  assumes "12 \<le> m"
  shows "xpow (Num (sqrt (481 * 10 ^ 24) / 2)) (2 * m) = PInf"
proof -
  have "dbl_max < (12025 * 10 ^ 22 :: real) ^ 12" by (simp add: dbl_max_def)
  also have "\<dots> \<le> (12025 * 10 ^ 22) ^ m"
    by (rule power_increasing [OF assms]) simp
  finally show ?thesis
    unfolding xpow_Num rh_sq by (rule ovf_PInf)
qed

lemma arctan_small: "\<bar>arctan x\<bar> \<le> 2"
  unfolding abs_le_iff using arctan_lbound [of x] arctan_ubound [of x] pi_less_4 by linarith

lemma run_angle:
  assumes "n < 32"
  shows "cv XL (int n) * Num (arctan (20 / 9)) = Num (real n * arctan (20 / 9))"
proof -
  have d: "(62::real) \<le> dbl_max" by (simp add: dbl_max_def)
  have n: "real n \<le> 31" using assms by simp
  then have c: "cv XL (int n) = Num (real n)"
    using cv_XL [of "int n"] d by simp
  have a: "\<bar>arctan (20 / 9 :: real)\<bar> \<le> 2" by (rule arctan_small)
  have "\<bar>real n\<bar> * \<bar>arctan (20 / 9 :: real)\<bar> \<le> 31 * 2"
    by (rule mult_mono) (use n a in simp_all)
  then have "\<bar>real n * arctan (20 / 9)\<bar> \<le> 31 * 2"
    by (simp only: abs_mult)
  with d have "\<bar>real n * arctan (20 / 9)\<bar> \<le> dbl_max" by simp
  then show ?thesis
    unfolding c xdbl_ops by (rule ovf_Num)
qed

lemma cis_theta: "Complex 9 20 = of_real (sqrt 481) * cis (arctan (20 / 9))"
proof -
  have s: "sqrt (1 + (20 / 9)\<^sup>2) = sqrt 481 / 9"
  proof -
    have e: "1 + (20 / 9 :: real)\<^sup>2 = 481 / 81" by (simp add: power2_eq_square)
    have r: "sqrt (81::real) = 9" by (rule real_sqrt_unique) simp_all
    show ?thesis by (simp only: e real_sqrt_divide r)
  qed
  have pos: "sqrt 481 \<noteq> (0::real)" by simp
  show ?thesis
    by (simp add: complex_eq_iff cos_arctan sin_arctan s pos)
qed

lemma w_power: "Complex 9 20 ^ n = of_real (sqrt 481 ^ n) * cis (real n * arctan (20 / 9))"
  unfolding cis_theta by (simp add: power_mult_distrib DeMoivre)

lemma cos_sign:
  "0 < cos (real n * arctan (20 / 9)) \<longleftrightarrow> 0 < Re (Complex 9 20 ^ n)"
  "cos (real n * arctan (20 / 9)) < 0 \<longleftrightarrow> Re (Complex 9 20 ^ n) < 0"
  "0 < sin (real n * arctan (20 / 9)) \<longleftrightarrow> 0 < Im (Complex 9 20 ^ n)"
  "sin (real n * arctan (20 / 9)) < 0 \<longleftrightarrow> Im (Complex 9 20 ^ n) < 0"
proof -
  have p: "0 < sqrt 481 ^ n" by simp
  have re: "Re (Complex 9 20 ^ n) = sqrt 481 ^ n * cos (real n * arctan (20 / 9))"
    and im: "Im (Complex 9 20 ^ n) = sqrt 481 ^ n * sin (real n * arctan (20 / 9))"
    unfolding w_power by simp_all
  show "0 < cos (real n * arctan (20 / 9)) \<longleftrightarrow> 0 < Re (Complex 9 20 ^ n)"
    unfolding re using p by (simp add: zero_less_mult_iff)
  show "cos (real n * arctan (20 / 9)) < 0 \<longleftrightarrow> Re (Complex 9 20 ^ n) < 0"
    unfolding re using p by (simp add: mult_less_0_iff)
  show "0 < sin (real n * arctan (20 / 9)) \<longleftrightarrow> 0 < Im (Complex 9 20 ^ n)"
    unfolding im using p by (simp add: zero_less_mult_iff)
  show "sin (real n * arctan (20 / 9)) < 0 \<longleftrightarrow> Im (Complex 9 20 ^ n) < 0"
    unfolding im using p by (simp add: mult_less_0_iff)
qed

lemma w_powers:
  "Complex 9 20 ^ 2 = Complex (- 319) 360"
  "Complex 9 20 ^ 4 = Complex (- 27839) (- 229680)"
  "Complex 9 20 ^ 8 = Complex (- 51977892479) 12788123040"
  "Complex 9 20 ^ 16 = Complex 2538165215672305923841 (- 1329399368762685232320)"
  "Complex 9 20 ^ 24
     = Complex (- 114927955977117411695703116039039) 101557746525062908747449673117920"
  "Complex 9 20 ^ 26
     = Complex 101229207677807181847411694002241 (- 73770985293257336100889567498670520)"
  "Complex 9 20 ^ 28
     = Complex 26525262588323420505310919969134672321 23569386823313100801648840241916702640"
  "Complex 9 20 ^ 30
     = Complex (- 16946538022067887429787765957243973420799)
         2030460135159552226185951151717053893400"
proof -
  show p2: "Complex 9 20 ^ 2 = Complex (- 319) 360"
    by (simp add: power2_eq_square complex_eq_iff)
  have "Complex 9 20 ^ 4 = (Complex 9 20 ^ 2) ^ 2" by (simp only: power_mult [symmetric]) simp
  then show p4: "Complex 9 20 ^ 4 = Complex (- 27839) (- 229680)"
    by (simp add: p2 power2_eq_square complex_eq_iff)
  have "Complex 9 20 ^ 8 = (Complex 9 20 ^ 4) ^ 2" by (simp only: power_mult [symmetric]) simp
  then show p8: "Complex 9 20 ^ 8 = Complex (- 51977892479) 12788123040"
    by (simp add: p4 power2_eq_square complex_eq_iff)
  have "Complex 9 20 ^ 16 = (Complex 9 20 ^ 8) ^ 2" by (simp only: power_mult [symmetric]) simp
  then show p16: "Complex 9 20 ^ 16 = Complex 2538165215672305923841 (- 1329399368762685232320)"
    by (simp add: p8 power2_eq_square complex_eq_iff)
  have "Complex 9 20 ^ 24 = Complex 9 20 ^ 16 * Complex 9 20 ^ 8"
    by (simp only: power_add [symmetric]) simp
  then show p24: "Complex 9 20 ^ 24
     = Complex (- 114927955977117411695703116039039) 101557746525062908747449673117920"
    by (simp add: p16 p8 complex_eq_iff)
  have "Complex 9 20 ^ 26 = Complex 9 20 ^ 24 * Complex 9 20 ^ 2"
    by (simp only: power_add [symmetric]) simp
  then show "Complex 9 20 ^ 26
     = Complex 101229207677807181847411694002241 (- 73770985293257336100889567498670520)"
    by (simp add: p24 p2 complex_eq_iff)
  have "Complex 9 20 ^ 28 = Complex 9 20 ^ 24 * Complex 9 20 ^ 4"
    by (simp only: power_add [symmetric]) simp
  then show p28: "Complex 9 20 ^ 28
     = Complex 26525262588323420505310919969134672321 23569386823313100801648840241916702640"
    by (simp add: p24 p4 complex_eq_iff)
  have "Complex 9 20 ^ 30 = Complex 9 20 ^ 28 * Complex 9 20 ^ 2"
    by (simp only: power_add [symmetric]) simp
  then show "Complex 9 20 ^ 30
     = Complex (- 16946538022067887429787765957243973420799)
         2030460135159552226185951151717053893400"
    by (simp add: p28 p2 complex_eq_iff)
qed

lemma run_signs:
  "cos (24 * arctan (20 / 9)) < 0" "0 < sin (24 * arctan (20 / 9))"
  "0 < cos (26 * arctan (20 / 9))" "sin (26 * arctan (20 / 9)) < 0"
  "0 < cos (28 * arctan (20 / 9))" "0 < sin (28 * arctan (20 / 9))"
  "cos (30 * arctan (20 / 9)) < 0" "0 < sin (30 * arctan (20 / 9))"
  using cos_sign [of 24] cos_sign [of 26] cos_sign [of 28] cos_sign [of 30]
  by (simp_all add: w_powers)

lemma coeff_XL:
  assumes "nf \<le> 16" "g = 1 \<or> g = - 1"
  shows "cv XL g * (lit XL 1 / (Num (fact nf) * Num (fact (nf + 1))))
           = Num (real_of_int g / (fact nf * fact (nf + 1)))"
proof -
  have f: "(1::real) \<le> fact nf * fact (nf + 1)"
    by (rule mult_ge1_I) (simp_all only: fact_ge_1)
  have "(fact nf :: real) \<le> fact 16" "(fact (nf + 1) :: real) \<le> fact 17"
    using assms(1) by (simp_all only: fact_mono)
  then have "(fact nf :: real) * fact (nf + 1) \<le> fact 16 * fact 17"
    by (rule mult_mono) simp_all
  also have "\<dots> \<le> dbl_max" by (simp add: dbl_max_def fact_numeral)
  finally have m: "\<bar>(fact nf :: real) * fact (nf + 1)\<bar> \<le> dbl_max"
    using f by simp
  have i: "\<bar>1 / ((fact nf :: real) * fact (nf + 1))\<bar> \<le> 1" using f by simp
  then have i': "\<bar>1 / ((fact nf :: real) * fact (nf + 1))\<bar> \<le> dbl_max"
    using dbl_max_ge(1) by linarith
  have nz: "(fact nf :: real) * fact (nf + 1) \<noteq> 0" using f by linarith
  have q: "lit XL 1 / (Num (fact nf) * Num (fact (nf + 1))) = Num (1 / (fact nf * fact (nf + 1)))"
    by (simp only: XL_sel ovf_small xdbl_ops ovf_Num [OF m] xdbl_ops(3) [OF nz] ovf_Num [OF i'])
  have g: "cv XL g = Num (real_of_int g)"
    using assms(2) by (auto simp add: cv_def XL_sel)
  have b: "\<bar>real_of_int g * (1 / ((fact nf :: real) * fact (nf + 1)))\<bar> \<le> dbl_max"
    using assms(2) i' by (auto simp add: abs_mult)
  have "cv XL g * (lit XL 1 / (Num (fact nf) * Num (fact (nf + 1))))
          = Num (real_of_int g) * Num (1 / (fact nf * fact (nf + 1)))"
    by (simp only: q g)
  also have "\<dots> = ovf (real_of_int g * (1 / (fact nf * fact (nf + 1))))"
    by (simp only: xdbl_ops)
  also have "\<dots> = Num (real_of_int g * (1 / (fact nf * fact (nf + 1))))"
    by (rule ovf_Num [OF b])
  finally show ?thesis
    by (simp only: mult_1_right times_divide_eq_right)
qed

lemma coeff_bound:
  assumes "g = 1 \<or> g = - 1"
  shows "\<bar>real_of_int g / (fact nf * fact (nf + 1))\<bar> \<le> 1"
proof -
  have "(1::real) \<le> fact nf * fact (nf + 1)"
    by (rule mult_ge1_I) (simp_all only: fact_ge_1)
  then show ?thesis using assms by auto
qed

lemma update_finite:
  assumes nf: "nf \<le> 16" and g: "g = 1 \<or> g = - 1"
    and y: "0 \<le> y" "y \<le> B" and t: "\<bar>t\<bar> \<le> 1"
    and u: "\<bar>u\<bar> \<le> K" "K + B \<le> dbl_max"
  shows "\<exists>u'. Num u + cv XL g * (lit XL 1 / (Num (fact nf) * Num (fact (nf + 1)))) * Num y * Num t
               = Num u' \<and> \<bar>u'\<bar> \<le> K + B"
proof -
  define c where "c = real_of_int g / (fact nf * fact (nf + 1))"
  have c: "\<bar>c\<bar> \<le> 1" unfolding c_def by (rule coeff_bound [OF g])
  have K: "0 \<le> K" using u(1) by linarith
  have B: "B \<le> dbl_max" using u(2) K by linarith
  have "\<bar>c * y\<bar> = \<bar>c\<bar> * y" using y by (simp add: abs_mult)
  also have "\<dots> \<le> 1 * y" by (rule mult_right_mono [OF c y(1)])
  finally have cy: "\<bar>c * y\<bar> \<le> B" using y by simp
  have "\<bar>c * y * t\<bar> = \<bar>c * y\<bar> * \<bar>t\<bar>" by (simp only: abs_mult)
  also have "\<dots> \<le> B * 1" by (rule mult_mono [OF cy t]) (use y in simp_all)
  finally have cyt: "\<bar>c * y * t\<bar> \<le> B" by simp
  have sum: "\<bar>u + c * y * t\<bar> \<le> K + B" using u(1) cyt by linarith
  have 1: "Num c * Num y = Num (c * y)"
    unfolding xdbl_ops by (rule ovf_Num) (use cy B in linarith)
  have 2: "Num (c * y) * Num t = Num (c * y * t)"
    unfolding xdbl_ops by (rule ovf_Num) (use cyt B in linarith)
  have 3: "Num u + Num (c * y * t) = Num (u + c * y * t)"
    unfolding xdbl_ops by (rule ovf_Num) (use sum u(2) in linarith)
  show ?thesis
    unfolding coeff_XL [OF nf g] c_def [symmetric] 1 2 3 using sum by blast
qed

lemma update_inf:
  assumes nf: "nf \<le> 16" and g: "g = 1 \<or> g = - 1" and t: "t \<noteq> 0"
  shows "cv XL g * (lit XL 1 / (Num (fact nf) * Num (fact (nf + 1)))) * PInf * Num t
           = (if 0 < real_of_int g * t then PInf else MInf)"
proof -
  have f: "(0::real) < fact nf * fact (nf + 1)"
    by (simp only: fact_gt_zero mult_pos_pos)
  show ?thesis
    unfolding coeff_XL [OF nf g]
    using g t f by (auto simp add: xdbl_ops zero_less_mult_iff mult_less_0_iff not_less
        less_eq_real_def divide_neg_pos)
qed

lemma J_s2_XL_finite:
  assumes len: "length rhp = 32" "length cthp = 32" "length sthp = 32"
    and ns: "ns < 8" and nf: "nf \<le> 16" and g: "g = 1 \<or> g = - 1"
    and F: "val XL (gF G) nf = Num (fact nf)" "val XL (gF G) (nf + 1) = Num (fact (nf + 1))"
    and x: "rhp ! (2 + 4 * ns) = Num y" "0 \<le> y" "y \<le> B"
    and c: "cthp ! (2 + 4 * ns) = Num t" "\<bar>t\<bar> \<le> 1"
    and s: "sthp ! (2 + 4 * ns) = Num t'" "\<bar>t'\<bar> \<le> 1"
    and u: "\<bar>u\<bar> \<le> K" "\<bar>v\<bar> \<le> K" "K + B \<le> dbl_max"
  shows "\<exists>u' v'. J_s2 XL strict G rhp cthp sthp ns (Num u, Num v, nf, g)
                    = Inr (Num u', Num v', nf + 2, - g) \<and> \<bar>u'\<bar> \<le> K + B \<and> \<bar>v'\<bar> \<le> K + B"
proof -
  obtain u' where u': "Num u + cv XL g * (lit XL 1 / (Num (fact nf) * Num (fact (nf + 1)))) * Num y * Num t
               = Num u'" "\<bar>u'\<bar> \<le> K + B"
    using update_finite [OF nf g x(2,3) c(2) u(1,3)] by blast
  obtain v' where v': "Num v + cv XL g * (lit XL 1 / (Num (fact nf) * Num (fact (nf + 1)))) * Num y * Num t'
               = Num v'" "\<bar>v'\<bar> \<le> K + B"
    using update_finite [OF nf g x(2,3) s(2) u(2,3)] by blast
  have i: "nf < Nf" "nf + 1 < Nf" "2 + 4 * ns < length rhp" "2 + 4 * ns < length cthp"
    "2 + 4 * ns < length sthp"
    using nf ns len by (simp_all add: Nf_def)
  have "J_s2 XL strict G rhp cthp sthp ns (Num u, Num v, nf, g) = Inr (Num u', Num v', nf + 2, - g)"
    unfolding J_s2_def
    by (simp only: prod.case Let_def rdg_in [OF i(1)] rdg_in [OF i(2)] rd_in [OF i(3)]
        rd_in [OF i(4)] rd_in [OF i(5)] F x c s u'(1) v'(1) XL_sel(8) xdbl.distinct simp_thms if_False)
  then show ?thesis using u'(2) v'(2) by blast
qed

lemma J_s4_XL_finite:
  assumes len: "length rhp = 32" "length cthp = 32" "length sthp = 32"
    and ns: "ns < 7" and nf: "nf \<le> 16" and g: "g = 1 \<or> g = - 1"
    and F: "val XL (gF G) nf = Num (fact nf)" "val XL (gF G) (nf + 1) = Num (fact (nf + 1))"
    and x: "rhp ! (4 + 4 * ns) = Num y" "0 \<le> y" "y \<le> B"
    and c: "cthp ! (4 + 4 * ns) = Num t" "\<bar>t\<bar> \<le> 1"
    and s: "sthp ! (4 + 4 * ns) = Num t'" "\<bar>t'\<bar> \<le> 1"
    and u: "\<bar>u\<bar> \<le> K" "\<bar>v\<bar> \<le> K" "K + B \<le> dbl_max"
  shows "\<exists>u' v'. J_s4 XL strict G rhp cthp sthp ns (Num u, Num v, nf, g)
                    = Inr (Num u', Num v', nf + 2, - g) \<and> \<bar>u'\<bar> \<le> K + B \<and> \<bar>v'\<bar> \<le> K + B"
proof -
  obtain u' where u': "Num u + cv XL g * (lit XL 1 / (Num (fact nf) * Num (fact (nf + 1)))) * Num y * Num t
               = Num u'" "\<bar>u'\<bar> \<le> K + B"
    using update_finite [OF nf g x(2,3) c(2) u(1,3)] by blast
  obtain v' where v': "Num v + cv XL g * (lit XL 1 / (Num (fact nf) * Num (fact (nf + 1)))) * Num y * Num t'
               = Num v'" "\<bar>v'\<bar> \<le> K + B"
    using update_finite [OF nf g x(2,3) s(2) u(2,3)] by blast
  have i: "nf < Nf" "nf + 1 < Nf" "4 + 4 * ns < length rhp" "4 + 4 * ns < length cthp"
    "4 + 4 * ns < length sthp"
    using nf ns len by (simp_all add: Nf_def)
  have "J_s4 XL strict G rhp cthp sthp ns (Num u, Num v, nf, g) = Inr (Num u', Num v', nf + 2, - g)"
    unfolding J_s4_def
    by (simp only: prod.case Let_def rdg_in [OF i(1)] rdg_in [OF i(2)] rd_in [OF i(3)]
        rd_in [OF i(4)] rd_in [OF i(5)] F x c s u'(1) v'(1) XL_sel(8) xdbl.distinct simp_thms if_False)
  then show ?thesis using u'(2) v'(2) by blast
qed

lemma J_s2_XL_inf:
  assumes len: "length rhp = 32" "length cthp = 32" "length sthp = 32"
    and ns: "ns < 8" and nf: "nf \<le> 16" and g: "g = 1 \<or> g = - 1"
    and F: "val XL (gF G) nf = Num (fact nf)" "val XL (gF G) (nf + 1) = Num (fact (nf + 1))"
    and x: "rhp ! (2 + 4 * ns) = PInf"
    and c: "cthp ! (2 + 4 * ns) = Num t" "t \<noteq> 0"
    and s: "sthp ! (2 + 4 * ns) = Num t'" "t' \<noteq> 0"
    and a: "a + (if 0 < real_of_int g * t then PInf else MInf) = a'" "a' \<noteq> Nan"
    and b: "b + (if 0 < real_of_int g * t' then PInf else MInf) = b'" "b' \<noteq> Nan"
  shows "J_s2 XL strict G rhp cthp sthp ns (a, b, nf, g) = Inr (a', b', nf + 2, - g)"
proof -
  have i: "nf < Nf" "nf + 1 < Nf" "2 + 4 * ns < length rhp" "2 + 4 * ns < length cthp"
    "2 + 4 * ns < length sthp"
    using nf ns len by (simp_all add: Nf_def)
  show ?thesis
    unfolding J_s2_def
    by (simp only: prod.case Let_def rdg_in [OF i(1)] rdg_in [OF i(2)] rd_in [OF i(3)]
        rd_in [OF i(4)] rd_in [OF i(5)] F x c s update_inf [OF nf g c(2)] update_inf [OF nf g s(2)]
        a b XL_sel(8) simp_thms if_False)
qed

lemma J_s4_XL_inf:
  assumes len: "length rhp = 32" "length cthp = 32" "length sthp = 32"
    and ns: "ns < 7" and nf: "nf \<le> 16" and g: "g = 1 \<or> g = - 1"
    and F: "val XL (gF G) nf = Num (fact nf)" "val XL (gF G) (nf + 1) = Num (fact (nf + 1))"
    and x: "rhp ! (4 + 4 * ns) = PInf"
    and c: "cthp ! (4 + 4 * ns) = Num t" "t \<noteq> 0"
    and s: "sthp ! (4 + 4 * ns) = Num t'" "t' \<noteq> 0"
    and a: "a + (if 0 < real_of_int g * t then PInf else MInf) = a'"
    and b: "b + (if 0 < real_of_int g * t' then PInf else MInf) = b'"
  shows "J_s4 XL strict G rhp cthp sthp ns (a, b, nf, g)
           = (if a' = Nan \<or> b' = Nan
              then Inl (NanExit [S ''4 4p : '', I (int ns), I (int (4 + 4 * ns))])
              else Inr (a', b', nf + 2, - g))"
proof -
  have i: "nf < Nf" "nf + 1 < Nf" "4 + 4 * ns < length rhp" "4 + 4 * ns < length cthp"
    "4 + 4 * ns < length sthp"
    using nf ns len by (simp_all add: Nf_def)
  show ?thesis
    unfolding J_s4_def
    by (simp only: prod.case Let_def rdg_in [OF i(1)] rdg_in [OF i(2)] rd_in [OF i(3)]
        rd_in [OF i(4)] rd_in [OF i(5)] F x c s update_inf [OF nf g c(2)] update_inf [OF nf g s(2)]
        a b XL_sel(8))
qed

lemma run_rhp_finite:
  assumes "m \<le> 11"
  shows "map (\<lambda>n. fpow XL (Num (sqrt (481 * 10 ^ 24) / 2)) n) [0..<32] ! (2 * m)
           = Num ((12025 * 10 ^ 22) ^ m)"
proof -
  have "2 * m < 32" using assms by simp
  then show ?thesis
    by (simp only: nth_map_upt minus_nat.diff_0 add_0 XL_sel rh_finite(1) [OF assms])
qed

lemma run_rhp_overflow:
  assumes "12 \<le> m" "m \<le> 15"
  shows "map (\<lambda>n. fpow XL (Num (sqrt (481 * 10 ^ 24) / 2)) n) [0..<32] ! (2 * m) = PInf"
proof -
  have "2 * m < 32" using assms by simp
  then show ?thesis
    by (simp only: nth_map_upt minus_nat.diff_0 add_0 XL_sel rh_overflow [OF assms(1)])
qed

lemma run_cthp:
  assumes "n < 32"
  shows "map (\<lambda>n. fcos XL (cv XL (int n) * Num (arctan (20 / 9)))) [0..<32] ! n
           = Num (cos (real n * arctan (20 / 9)))"
  using assms by (simp only: nth_map_upt minus_nat.diff_0 add_0 XL_sel run_angle xcos.simps)

lemma run_sthp:
  assumes "n < 32"
  shows "map (\<lambda>n. fsin XL (cv XL (int n) * Num (arctan (20 / 9)))) [0..<32] ! n
           = Num (sin (real n * arctan (20 / 9)))"
  using assms by (simp only: nth_map_upt minus_nat.diff_0 add_0 XL_sel run_angle xsin.simps)

lemma run_len:
  "length (map (\<lambda>n. fpow XL (Num (sqrt (481 * 10 ^ 24) / 2)) n) [0..<32]) = 32"
  "length (map (\<lambda>n. fcos XL (cv XL (int n) * Num (arctan (20 / 9)))) [0..<32]) = 32"
  "length (map (\<lambda>n. fsin XL (cv XL (int n) * Num (arctan (20 / 9)))) [0..<32]) = 32"
  by simp_all

lemma six_terms: "6 * (12025 * 10 ^ 22 :: real) ^ 11 \<le> dbl_max"
  by (simp add: dbl_max_def)

lemma sign_cases: "(- 1 :: int) ^ k = 1 \<or> (- 1 :: int) ^ k = - 1"
  by (cases "even k") simp_all

lemma J_s2_XL_prefix:
  assumes "k \<le> 6"
  shows "\<exists>u v. forM [0..<k]
            (J_s2 XL strict (startup XL)
               (map (\<lambda>n. fpow XL (Num (sqrt (481 * 10 ^ 24) / 2)) n) [0..<32])
               (map (\<lambda>n. fcos XL (cv XL (int n) * Num (arctan (20 / 9)))) [0..<32])
               (map (\<lambda>n. fsin XL (cv XL (int n) * Num (arctan (20 / 9)))) [0..<32]))
            (Num 0, Num 0, 1, 1)
          = Inr (Num u, Num v, 2 * k + 1, (- 1) ^ k)"
proof -
  define rhp where "rhp = map (\<lambda>n. fpow XL (Num (sqrt (481 * 10 ^ 24) / 2)) n) [0..<32]"
  define cthp where "cthp = map (\<lambda>n. fcos XL (cv XL (int n) * Num (arctan (20 / 9)))) [0..<32]"
  define sthp where "sthp = map (\<lambda>n. fsin XL (cv XL (int n) * Num (arctan (20 / 9)))) [0..<32]"
  define A :: real where "A = 12025 * 10 ^ 22"
  define B :: real where "B = A ^ 11"
  have len: "length rhp = 32" "length cthp = 32" "length sthp = 32"
    unfolding rhp_def cthp_def sthp_def by (rule run_len)+
  have six: "6 * B \<le> dbl_max"
    unfolding B_def A_def by (rule six_terms)
  have B0: "0 \<le> B" unfolding B_def A_def by simp
  have rh: "rhp ! (2 * m) = Num (A ^ m)" "0 \<le> A ^ m" "A ^ m \<le> B" if "m \<le> 11" for m
    unfolding rhp_def A_def B_def
    by (rule run_rhp_finite [OF that], simp, rule rh_finite(2) [OF that])
  have cs: "cthp ! n = Num (cos (real n * arctan (20 / 9)))"
    and sn: "sthp ! n = Num (sin (real n * arctan (20 / 9)))" if "n < 32" for n
    unfolding cthp_def sthp_def by (rule run_cthp [OF that], rule run_sthp [OF that])
  have "k \<le> 6 \<Longrightarrow> \<exists>u v. forM [0..<k] (J_s2 XL strict (startup XL) rhp cthp sthp) (Num 0, Num 0, 1, 1)
          = Inr (Num u, Num v, 2 * k + 1, (- 1) ^ k) \<and> \<bar>u\<bar> \<le> real k * B \<and> \<bar>v\<bar> \<le> real k * B"
  proof (induction k)
    case 0
    show ?case by simp
  next
    case (Suc k)
    from Suc obtain u v where
      run: "forM [0..<k] (J_s2 XL strict (startup XL) rhp cthp sthp) (Num 0, Num 0, 1, 1)
              = Inr (Num u, Num v, 2 * k + 1, (- 1) ^ k)"
      and uv: "\<bar>u\<bar> \<le> real k * B" "\<bar>v\<bar> \<le> real k * B"
      by auto
    have k: "k \<le> 5" using Suc.prems by simp
    have np: "2 + 4 * k = 2 * (1 + 2 * k)" by simp
    have m: "1 + 2 * k \<le> 11" using k by simp
    have n32: "2 + 4 * k < 32" using k by simp
    have k8: "k < 8" using k by simp
    have nf: "2 * k + 1 \<le> 16" "2 * k + 1 < Nf" "2 * k + 1 + 1 < Nf" using k by (simp_all add: Nf_def)
    have eq: "real k * B + B = real (Suc k) * B" by (simp add: algebra_simps)
    have "real (Suc k) * B \<le> 6 * B"
      by (rule mult_right_mono [OF _ B0]) (use Suc.prems in simp)
    with six have room: "real k * B + B \<le> dbl_max" unfolding eq by linarith
    have x: "rhp ! (2 + 4 * k) = Num (A ^ (1 + 2 * k))"
      unfolding np by (rule rh(1) [OF m])
    obtain u' v' where
      step: "J_s2 XL strict (startup XL) rhp cthp sthp k (Num u, Num v, 2 * k + 1, (- 1) ^ k)
               = Inr (Num u', Num v', 2 * k + 1 + 2, - ((- 1) ^ k))"
      and uv': "\<bar>u'\<bar> \<le> real k * B + B" "\<bar>v'\<bar> \<le> real k * B + B"
      using J_s2_XL_finite [OF len k8 nf(1) sign_cases startup_F_XL [OF nf(2)] startup_F_XL [OF nf(3)]
          x rh(2) [OF m] rh(3) [OF m] cs [OF n32] abs_cos_le_one sn [OF n32] abs_sin_le_one uv room]
      by blast
    have "forM [0..<Suc k] (J_s2 XL strict (startup XL) rhp cthp sthp) (Num 0, Num 0, 1, 1)
            = Inr (Num u', Num v', 2 * Suc k + 1, (- 1) ^ Suc k)"
      by (simp only: forM_upt_Suc [OF le0] run thn_simps step) simp
    then show ?case using uv' unfolding eq by blast
  qed
  from this [OF assms] show ?thesis
    unfolding rhp_def cthp_def sthp_def by blast
qed

lemma J_s4_XL_prefix:
  assumes "k \<le> 5"
  shows "\<exists>u v. forM [0..<k]
            (J_s4 XL strict (startup XL)
               (map (\<lambda>n. fpow XL (Num (sqrt (481 * 10 ^ 24) / 2)) n) [0..<32])
               (map (\<lambda>n. fcos XL (cv XL (int n) * Num (arctan (20 / 9)))) [0..<32])
               (map (\<lambda>n. fsin XL (cv XL (int n) * Num (arctan (20 / 9)))) [0..<32]))
            (Num 0, Num 0, 2, 1)
          = Inr (Num u, Num v, 2 * k + 2, (- 1) ^ k)"
proof -
  define rhp where "rhp = map (\<lambda>n. fpow XL (Num (sqrt (481 * 10 ^ 24) / 2)) n) [0..<32]"
  define cthp where "cthp = map (\<lambda>n. fcos XL (cv XL (int n) * Num (arctan (20 / 9)))) [0..<32]"
  define sthp where "sthp = map (\<lambda>n. fsin XL (cv XL (int n) * Num (arctan (20 / 9)))) [0..<32]"
  define A :: real where "A = 12025 * 10 ^ 22"
  define B :: real where "B = A ^ 11"
  have len: "length rhp = 32" "length cthp = 32" "length sthp = 32"
    unfolding rhp_def cthp_def sthp_def by (rule run_len)+
  have six: "6 * B \<le> dbl_max"
    unfolding B_def A_def by (rule six_terms)
  have B0: "0 \<le> B" unfolding B_def A_def by simp
  have rh: "rhp ! (2 * m) = Num (A ^ m)" "0 \<le> A ^ m" "A ^ m \<le> B" if "m \<le> 11" for m
    unfolding rhp_def A_def B_def
    by (rule run_rhp_finite [OF that], simp, rule rh_finite(2) [OF that])
  have cs: "cthp ! n = Num (cos (real n * arctan (20 / 9)))"
    and sn: "sthp ! n = Num (sin (real n * arctan (20 / 9)))" if "n < 32" for n
    unfolding cthp_def sthp_def by (rule run_cthp [OF that], rule run_sthp [OF that])
  have "k \<le> 5 \<Longrightarrow> \<exists>u v. forM [0..<k] (J_s4 XL strict (startup XL) rhp cthp sthp) (Num 0, Num 0, 2, 1)
          = Inr (Num u, Num v, 2 * k + 2, (- 1) ^ k) \<and> \<bar>u\<bar> \<le> real k * B \<and> \<bar>v\<bar> \<le> real k * B"
  proof (induction k)
    case 0
    show ?case by simp
  next
    case (Suc k)
    from Suc obtain u v where
      run: "forM [0..<k] (J_s4 XL strict (startup XL) rhp cthp sthp) (Num 0, Num 0, 2, 1)
              = Inr (Num u, Num v, 2 * k + 2, (- 1) ^ k)"
      and uv: "\<bar>u\<bar> \<le> real k * B" "\<bar>v\<bar> \<le> real k * B"
      by auto
    have k: "k \<le> 4" using Suc.prems by simp
    have np: "4 + 4 * k = 2 * (2 + 2 * k)" by simp
    have m: "2 + 2 * k \<le> 11" using k by simp
    have n32: "4 + 4 * k < 32" using k by simp
    have k8: "k < 7" using k by simp
    have nf: "2 * k + 2 \<le> 16" "2 * k + 2 < Nf" "2 * k + 2 + 1 < Nf" using k by (simp_all add: Nf_def)
    have eq: "real k * B + B = real (Suc k) * B" by (simp add: algebra_simps)
    have "real (Suc k) * B \<le> 6 * B"
      by (rule mult_right_mono [OF _ B0]) (use Suc.prems in simp)
    with six have room: "real k * B + B \<le> dbl_max" unfolding eq by linarith
    have x: "rhp ! (4 + 4 * k) = Num (A ^ (2 + 2 * k))"
      unfolding np by (rule rh(1) [OF m])
    obtain u' v' where
      step: "J_s4 XL strict (startup XL) rhp cthp sthp k (Num u, Num v, 2 * k + 2, (- 1) ^ k)
               = Inr (Num u', Num v', 2 * k + 2 + 2, - ((- 1) ^ k))"
      and uv': "\<bar>u'\<bar> \<le> real k * B + B" "\<bar>v'\<bar> \<le> real k * B + B"
      using J_s4_XL_finite [OF len k8 nf(1) sign_cases startup_F_XL [OF nf(2)] startup_F_XL [OF nf(3)]
          x rh(2) [OF m] rh(3) [OF m] cs [OF n32] abs_cos_le_one sn [OF n32] abs_sin_le_one uv room]
      by blast
    have "forM [0..<Suc k] (J_s4 XL strict (startup XL) rhp cthp sthp) (Num 0, Num 0, 2, 1)
            = Inr (Num u', Num v', 2 * Suc k + 2, (- 1) ^ Suc k)"
      by (simp only: forM_upt_Suc [OF le0] run thn_simps step) simp
    then show ?case using uv' unfolding eq by blast
  qed
  from this [OF assms] show ?thesis
    unfolding rhp_def cthp_def sthp_def by blast
qed

lemma upt_8_split: "[0..<8] = [0..<6] @ [6, 7]" "[0..<8] = [0..<5] @ [5, 6, 7]"
  by (simp_all add: upt_rec)

lemma J_s2_XL_loop:
  "forM [0..<Ns]
     (J_s2 XL strict (startup XL)
        (map (\<lambda>n. fpow XL (Num (sqrt (481 * 10 ^ 24) / 2)) n) [0..<32])
        (map (\<lambda>n. fcos XL (cv XL (int n) * Num (arctan (20 / 9)))) [0..<32])
        (map (\<lambda>n. fsin XL (cv XL (int n) * Num (arctan (20 / 9)))) [0..<32]))
     (Num 0, Num 0, 1, 1)
   = Inr (PInf, MInf, 17, 1)"
proof -
  define rhp where "rhp = map (\<lambda>n. fpow XL (Num (sqrt (481 * 10 ^ 24) / 2)) n) [0..<32]"
  define cthp where "cthp = map (\<lambda>n. fcos XL (cv XL (int n) * Num (arctan (20 / 9)))) [0..<32]"
  define sthp where "sthp = map (\<lambda>n. fsin XL (cv XL (int n) * Num (arctan (20 / 9)))) [0..<32]"
  have len: "length rhp = 32" "length cthp = 32" "length sthp = 32"
    unfolding rhp_def cthp_def sthp_def by (rule run_len)+
  have inf: "rhp ! (2 * m) = PInf" if "12 \<le> m" "m \<le> 15" for m
    unfolding rhp_def by (rule run_rhp_overflow [OF that])
  have cs: "cthp ! n = Num (cos (real n * arctan (20 / 9)))"
    and sn: "sthp ! n = Num (sin (real n * arctan (20 / 9)))" if "n < 32" for n
    unfolding cthp_def sthp_def by (rule run_cthp [OF that], rule run_sthp [OF that])
  obtain u v where
    pre: "forM [0..<6] (J_s2 XL strict (startup XL) rhp cthp sthp) (Num 0, Num 0, 1, 1)
            = Inr (Num u, Num v, 13, 1)"
    using J_s2_XL_prefix [of 6] unfolding rhp_def cthp_def sthp_def by auto
  have p6: "J_s2 XL strict (startup XL) rhp cthp sthp 6 (Num u, Num v, 13, 1)
              = Inr (PInf, MInf, 15, - 1)"
    using J_s2_XL_inf [where ns = 6 and nf = 13 and g = 1 and G = "startup XL"
        and t = "cos (26 * arctan (20 / 9))" and t' = "sin (26 * arctan (20 / 9))"
        and a = "Num u" and b = "Num v" and a' = PInf and b' = MInf, OF len]
      inf [of 13] cs [of 26] sn [of 26] run_signs startup_F_XL [of 13] startup_F_XL [of 14]
    by (simp add: Nf_def xdbl_ops not_less less_imp_le)
  have p7: "J_s2 XL strict (startup XL) rhp cthp sthp 7 (PInf, MInf, 15, - 1)
              = Inr (PInf, MInf, 17, 1)"
    using J_s2_XL_inf [where ns = 7 and nf = 15 and g = "- 1" and G = "startup XL"
        and t = "cos (30 * arctan (20 / 9))" and t' = "sin (30 * arctan (20 / 9))"
        and a = PInf and b = MInf and a' = PInf and b' = MInf, OF len]
      inf [of 15] cs [of 30] sn [of 30] run_signs startup_F_XL [of 15] startup_F_XL [of 16]
    by (simp add: Nf_def xdbl_ops not_less less_imp_le)
  show ?thesis
    unfolding rhp_def [symmetric] cthp_def [symmetric] sthp_def [symmetric] Ns_def upt_8_split(1)
    by (simp only: forM_append pre thn_simps forM.simps p6 p7 sum.case)
qed

lemma J_s4_XL_loop:
  "forM [0..<Ns]
     (J_s4 XL strict (startup XL)
        (map (\<lambda>n. fpow XL (Num (sqrt (481 * 10 ^ 24) / 2)) n) [0..<32])
        (map (\<lambda>n. fcos XL (cv XL (int n) * Num (arctan (20 / 9)))) [0..<32])
        (map (\<lambda>n. fsin XL (cv XL (int n) * Num (arctan (20 / 9)))) [0..<32]))
     (Num 0, Num 0, 2, 1)
   = Inl (NanExit [S ''4 4p : '', I 6, I 28])"
proof -
  define rhp where "rhp = map (\<lambda>n. fpow XL (Num (sqrt (481 * 10 ^ 24) / 2)) n) [0..<32]"
  define cthp where "cthp = map (\<lambda>n. fcos XL (cv XL (int n) * Num (arctan (20 / 9)))) [0..<32]"
  define sthp where "sthp = map (\<lambda>n. fsin XL (cv XL (int n) * Num (arctan (20 / 9)))) [0..<32]"
  have len: "length rhp = 32" "length cthp = 32" "length sthp = 32"
    unfolding rhp_def cthp_def sthp_def by (rule run_len)+
  have inf: "rhp ! (2 * m) = PInf" if "12 \<le> m" "m \<le> 15" for m
    unfolding rhp_def by (rule run_rhp_overflow [OF that])
  have cs: "cthp ! n = Num (cos (real n * arctan (20 / 9)))"
    and sn: "sthp ! n = Num (sin (real n * arctan (20 / 9)))" if "n < 32" for n
    unfolding cthp_def sthp_def by (rule run_cthp [OF that], rule run_sthp [OF that])
  obtain u v where
    pre: "forM [0..<5] (J_s4 XL strict (startup XL) rhp cthp sthp) (Num 0, Num 0, 2, 1)
            = Inr (Num u, Num v, 12, - 1)"
    using J_s4_XL_prefix [of 5] unfolding rhp_def cthp_def sthp_def by auto
  have p5: "J_s4 XL strict (startup XL) rhp cthp sthp 5 (Num u, Num v, 12, - 1)
              = Inr (PInf, MInf, 14, 1)"
    using J_s4_XL_inf [where ns = 5 and nf = 12 and g = "- 1" and G = "startup XL"
        and t = "cos (24 * arctan (20 / 9))" and t' = "sin (24 * arctan (20 / 9))"
        and a = "Num u" and b = "Num v" and a' = PInf and b' = MInf, OF len]
      inf [of 12] cs [of 24] sn [of 24] run_signs startup_F_XL [of 12] startup_F_XL [of 13]
    by (simp add: Nf_def xdbl_ops not_less less_imp_le)
  have p6: "J_s4 XL strict (startup XL) rhp cthp sthp 6 (PInf, MInf, 14, 1)
              = Inl (NanExit [S ''4 4p : '', I 6, I 28])"
    using J_s4_XL_inf [where ns = 6 and nf = 14 and g = 1 and G = "startup XL"
        and t = "cos (28 * arctan (20 / 9))" and t' = "sin (28 * arctan (20 / 9))"
        and a = PInf and b = MInf and a' = PInf and b' = Nan, OF len]
      inf [of 14] cs [of 28] sn [of 28] run_signs startup_F_XL [of 14] startup_F_XL [of 15]
    by (simp add: Nf_def xdbl_ops not_less less_imp_le)
  show ?thesis
    unfolding rhp_def [symmetric] cthp_def [symmetric] sthp_def [symmetric] Ns_def upt_8_split(2)
    by (simp only: forM_append pre thn_simps forM.simps p5 p6 sum.case)
qed

lemma J_XL_run:
  "J XL strict (startup XL) (Num (9 * 10 ^ 12)) (Num (2 * 10 ^ 13))
     = Inl (NanExit [S ''4 4p : '', I 6, I 28])"
proof -
  have z: "lit XL 0 = Num 0" by (simp only: XL_sel ovf_small)
  show ?thesis
    unfolding J_def Let_def run_r run_rh run_th z
    by (simp only: J_s2_XL_loop J_s4_XL_loop thn_simps prod.case)
qed

text \<open>
  C4.  On the input \<open>p = 9e12\<close>, \<open>q = 2e13\<close> the first loop of \<open>J\<close> ends with \<open>s2 = inf\<close>
  and \<open>s2p = - inf\<close>; in the second loop the pass \<open>ns = 5\<close> leaves \<open>s4p = - inf\<close> and the
  pass \<open>ns = 6\<close> adds \<open>inf\<close> to it.  \<open>J\<close> ends the run there, having written the label
  \<open>4 4p\<close>, the pass index \<open>6\<close> and the term index \<open>28\<close>, and no intermediate value.  The
  first loop writes them: on the input \<open>p = nan\<close>, \<open>q = 1\<close> it ends the run in its first
  pass with the three table entries, the sign, \<open>nf\<close>, two factorials and the two sums.  In
  every arithmetic an exit of \<open>J\<close> from the second to the sixth loop has written the label
  of the loop, a pass index \<open>ns\<close> below \<open>Ns = 8\<close> and the term index of that pass, and
  nothing else.
\<close>

theorem J_nan_checks:
  "J XL strict (startup XL) (Num (9 * 10 ^ 12)) (Num (2 * 10 ^ 13))
     = Inl (NanExit [S ''4 4p : '', I 6, I 28]) \<and>
   J DL strict (startup DL) NaN (Fin 1)
     = Inl (NanExit [S ''2 2p : '', I 0, I 2, D NaN, D NaN, D NaN, I (- 1), I 3,
                     D (val DL (gF (startup DL)) 3), D (val DL (gF (startup DL)) 4),
                     D NaN, D NaN]) \<and>
   (J L M G p q = Inl (NanExit d)
      \<longrightarrow> (\<exists>ns<Ns.
            (\<exists>x cs sn g nf f0 f1 a b.
                d = [S ''2 2p : '', I (int ns), I (int (2 + 4 * ns)), D x, D cs, D sn, I g, I nf,
                     D f0, D f1, D a, D b] \<and> (fisnan L a \<or> fisnan L b))
            \<or> d = [S ''4 4p : '', I (int ns), I (int (4 + 4 * ns))]
            \<or> d = [S ''g1 : '', I (int ns), I (int (1 + 4 * ns))]
            \<or> d = [S ''g3 : '', I (int ns), I (int (3 + 4 * ns))]
            \<or> d = [S ''g2 : '', I (int ns), I (int (2 + 4 * ns))]
            \<or> d = [S ''g4 : '', I (int ns), I (int (4 + 4 * ns))]))"
  by (intro conjI impI J_XL_run J_NaN_run J_exit_forms)

text \<open>The general statement at the input \<open>p = 9e12\<close>, \<open>q = 2e13\<close>.\<close>

theorem J_nan_checks_witness:
  "J XL strict (startup XL) (Num (9 * 10 ^ 12)) (Num (2 * 10 ^ 13))
     = Inl (NanExit [S ''4 4p : '', I 6, I 28]) \<and>
   (\<exists>ns<Ns. ([S ''4 4p : '', I 6, I 28] :: xdbl item list)
               = [S ''4 4p : '', I (int ns), I (int (4 + 4 * ns))])"
proof -
  let ?d = "[S ''4 4p : '', I 6, I 28] :: xdbl item list"
  have run: "J XL strict (startup XL) (Num (9 * 10 ^ 12)) (Num (2 * 10 ^ 13)) = Inl (NanExit ?d)"
    by (rule J_nan_checks [THEN conjunct1])
  have "J XL strict (startup XL) (Num (9 * 10 ^ 12)) (Num (2 * 10 ^ 13)) = Inl (NanExit ?d)
    \<longrightarrow> (\<exists>ns<Ns.
            (\<exists>x cs sn g nf f0 f1 a b.
                ?d = [S ''2 2p : '', I (int ns), I (int (2 + 4 * ns)), D x, D cs, D sn, I g, I nf,
                     D f0, D f1, D a, D b] \<and> (fisnan XL a \<or> fisnan XL b))
            \<or> ?d = [S ''4 4p : '', I (int ns), I (int (4 + 4 * ns))]
            \<or> ?d = [S ''g1 : '', I (int ns), I (int (1 + 4 * ns))]
            \<or> ?d = [S ''g3 : '', I (int ns), I (int (3 + 4 * ns))]
            \<or> ?d = [S ''g2 : '', I (int ns), I (int (2 + 4 * ns))]
            \<or> ?d = [S ''g4 : '', I (int ns), I (int (4 + 4 * ns))])"
    by (rule J_nan_checks [where L = XL and M = strict and G = "startup XL"
          and p = "Num (9 * 10 ^ 12)" and q = "Num (2 * 10 ^ 13)" and d = ?d,
          THEN conjunct2, THEN conjunct2])
  then have "\<exists>ns<Ns.
            (\<exists>x cs sn g nf f0 f1 a b.
                ?d = [S ''2 2p : '', I (int ns), I (int (2 + 4 * ns)), D x, D cs, D sn, I g, I nf,
                     D f0, D f1, D a, D b] \<and> (fisnan XL a \<or> fisnan XL b))
            \<or> ?d = [S ''4 4p : '', I (int ns), I (int (4 + 4 * ns))]
            \<or> ?d = [S ''g1 : '', I (int ns), I (int (1 + 4 * ns))]
            \<or> ?d = [S ''g3 : '', I (int ns), I (int (3 + 4 * ns))]
            \<or> ?d = [S ''g2 : '', I (int ns), I (int (2 + 4 * ns))]
            \<or> ?d = [S ''g4 : '', I (int ns), I (int (4 + 4 * ns))]"
    using run by (rule mp)
  then have "\<exists>ns<Ns. ?d = [S ''4 4p : '', I (int ns), I (int (4 + 4 * ns))]"
    by simp
  then show ?thesis
    by (intro conjI) (rule run)
qed

subsection \<open>The sign of \<open>q\<close>\<close>

lemma atan2_minus: "q \<noteq> 0 \<or> 0 \<le> p \<Longrightarrow> atan2 (- q) p = - atan2 q p"
  by (auto simp add: atan2_def arctan_minus)


lemma upt_8_list: "[0..<8] = [0, 1, 2, 3, 4, 5, 6, 7]"
  by (simp add: upt_rec)

lemma J_s2_RL_swap:
  assumes "length rhp = 32" "length cthp = 32" "length sthp = 32"
  shows "\<exists>a b. forM [0..<Ns] (J_s2 RL M G rhp cthp sthp) (0, 0, 1, 1) = Inr (a, b, 17, 1)
             \<and> forM [0..<Ns] (J_s2 RL M G rhp cthp (map uminus sthp)) (0, 0, 1, 1)
                 = Inr (a, - b, 17, 1)"
  using assms
  by (simp add: Ns_def upt_8_list J_s2_def rdg_def rd_def Nf_def RL_sel Let_def)

lemma J_s4_RL_swap:
  assumes "length rhp = 32" "length cthp = 32" "length sthp = 32"
    and "M A_rhp 32 = Some xr" "M A_cthp 32 = Some xc" "M A_sthp 32 = Some xs"
  shows "\<exists>a b. forM [0..<Ns] (J_s4 RL M G rhp cthp sthp) (0, 0, 2, 1) = Inr (a, b, 18, 1)
             \<and> forM [0..<Ns] (J_s4 RL M G rhp cthp (map uminus sthp)) (0, 0, 2, 1)
                 = Inr (a, - b + 2 * (- 1 * (1 / (val RL (gF G) 16 * val RL (gF G) 17)) * xr * xs),
                        18, 1)"
  using assms
  by (simp add: Ns_def upt_8_list J_s4_def rdg_def rd_def Nf_def RL_sel RL_consts Let_def)

lemma J_sg_odd_RL_runs:
  assumes "length rp = 32" "length cthp = 32"
  shows "\<exists>a. forM [0..<Ns] (J_sg_odd RL M G rp cthp 1 l1) (0, 1, 3) = Inr (a, 1, 35)"
    and "\<exists>a. forM [0..<Ns] (J_sg_odd RL M G rp cthp 3 l3) (0, 1, 5) = Inr (a, 1, 37)"
  using assms
  by (simp_all add: Ns_def upt_8_list J_sg_odd_def rdg_def rd_def Nsi_def RL_sel Let_def)

lemma J_sg_even_RL_runs:
  assumes "length rhp = 32" "length cthp = 32"
    and "M A_rhp 32 = Some xr" "M A_cthp 32 = Some xc"
  shows "\<exists>a. forM [0..<Ns] (J_sg_even RL M G rhp cthp 2 l2) (0, 1, 2, 1) = Inr (a, 1, 18, 17)"
    and "\<exists>a. forM [0..<Ns] (J_sg_even RL M G rhp cthp 4 l4) (0, 1, 3, 2) = Inr (a, 1, 19, 18)"
  using assms
  by (simp_all add: Ns_def upt_8_list J_sg_even_def rdg_def rd_def Nsi_def Nf_def RL_sel Let_def)

lemma J_RL_memory:
  assumes M: "M A_rhp 32 = Some xr" "M A_cthp 32 = Some xc" "M A_sthp 32 = Some xs"
    and q: "q \<noteq> 0 \<or> 0 \<le> p"
  shows "\<exists>P Q. J RL M G p q = Inr (P, Q) \<and>
           J RL M G p (- q)
             = Inr (P, Q - atan2 q p * (xr * xs) / (val RL (gF G) 16 * val RL (gF G) 17))"
proof -
  let ?r = "fsqrt RL (p * p + q * q)"
  let ?th = "fatan2 RL q p"
  let ?rp = "map (\<lambda>n. fpow RL ?r n) [0..<32]"
  let ?rhp = "map (\<lambda>n. fpow RL (lit RL (1 / 2) * ?r) n) [0..<32]"
  let ?cthp = "map (\<lambda>n. fcos RL (cv RL (int n) * ?th)) [0..<32]"
  let ?sthp = "map (\<lambda>n. fsin RL (cv RL (int n) * ?th)) [0..<32]"
  have th: "fatan2 RL (- q) p = - ?th"
    by (simp add: RL_sel atan2_minus [OF q])
  have r: "fsqrt RL (p * p + - q * - q) = ?r" by simp
  have c: "map (\<lambda>n. fcos RL (cv RL (int n) * - ?th)) [0..<32] = ?cthp"
    by (simp add: RL_sel)
  have s: "map (\<lambda>n. fsin RL (cv RL (int n) * - ?th)) [0..<32] = map uminus ?sthp"
    by (simp add: RL_sel)
  obtain a2 b2 where l1:
    "forM [0..<Ns] (J_s2 RL M G ?rhp ?cthp ?sthp) (0, 0, 1, 1) = Inr (a2, b2, 17, 1)"
    "forM [0..<Ns] (J_s2 RL M G ?rhp ?cthp (map uminus ?sthp)) (0, 0, 1, 1) = Inr (a2, - b2, 17, 1)"
    using J_s2_RL_swap [of ?rhp ?cthp ?sthp M G] by auto
  obtain a4 b4 where l2:
    "forM [0..<Ns] (J_s4 RL M G ?rhp ?cthp ?sthp) (0, 0, 2, 1) = Inr (a4, b4, 18, 1)"
    "forM [0..<Ns] (J_s4 RL M G ?rhp ?cthp (map uminus ?sthp)) (0, 0, 2, 1)
       = Inr (a4, - b4 + 2 * (- 1 * (1 / (val RL (gF G) 16 * val RL (gF G) 17)) * xr * xs), 18, 1)"
    using J_s4_RL_swap [of ?rhp ?cthp ?sthp M xr xc xs G] M by auto
  obtain g1 where l3:
    "forM [0..<Ns] (J_sg_odd RL M G ?rp ?cthp 1 ''g1 : '') (0, 1, 3) = Inr (g1, 1, 35)"
    using J_sg_odd_RL_runs(1) [of ?rp ?cthp M G] by auto
  obtain g3 where l4:
    "forM [0..<Ns] (J_sg_odd RL M G ?rp ?cthp 3 ''g3 : '') (0, 1, 5) = Inr (g3, 1, 37)"
    using J_sg_odd_RL_runs(2) [of ?rp ?cthp M G] by auto
  obtain g2 where l5:
    "forM [0..<Ns] (J_sg_even RL M G ?rhp ?cthp 2 ''g2 : '') (0, 1, 2, 1) = Inr (g2, 1, 18, 17)"
    using J_sg_even_RL_runs(1) [of ?rhp ?cthp M xr xc G] M by auto
  obtain g4 where l6:
    "forM [0..<Ns] (J_sg_even RL M G ?rhp ?cthp 4 ''g4 : '') (0, 1, 3, 2) = Inr (g4, 1, 19, 18)"
    using J_sg_even_RL_runs(2) [of ?rhp ?cthp M xr xc G] M by auto
  have z: "lit RL 0 = 0" by (simp add: RL_sel)
  have A: "J RL M G p q
      = Inr (J_P RL (flog RL ?r) ?th a2 b2 a4 g1 g2 g3, J_Q RL (flog RL ?r) ?th a2 a4 b4 g1 g3 g4)"
    unfolding J_def Let_def z by (simp only: l1 l2 l3 l4 l5 l6 thn_simps prod.case)
  have B: "J RL M G p (- q)
      = Inr (J_P RL (flog RL ?r) (- ?th) a2 (- b2) a4 g1 g2 g3,
             J_Q RL (flog RL ?r) (- ?th) a2 a4
               (- b4 + 2 * (- 1 * (1 / (val RL (gF G) 16 * val RL (gF G) 17)) * xr * xs))
               g1 g3 g4)"
    unfolding J_def Let_def z th r c s by (simp only: l1 l2 l3 l4 l5 l6 thn_simps prod.case)
  have P: "J_P RL (flog RL ?r) (- ?th) a2 (- b2) a4 g1 g2 g3
         = J_P RL (flog RL ?r) ?th a2 b2 a4 g1 g2 g3"
    by (simp add: J_P_def RL_sel)
  have Q: "J_Q RL (flog RL ?r) (- ?th) a2 a4
               (- b4 + 2 * (- 1 * (1 / (val RL (gF G) 16 * val RL (gF G) 17)) * xr * xs))
               g1 g3 g4
         = J_Q RL (flog RL ?r) ?th a2 a4 b4 g1 g3 g4
             - atan2 q p * (xr * xs) / (val RL (gF G) 16 * val RL (gF G) 17)"
    by (simp add: J_Q_def RL_sel algebra_simps)
  show ?thesis
    by (simp only: A B P Q) blast
qed


text \<open>
  C9.  \<open>J\<close> reads past the end of its local arrays.  With reads checked against the
  declared sizes, the run on the default point \<open>p = 5\<close>, \<open>q = 1\<close> ends at the read of
  \<open>rhp[32]\<close> in the last pass of the second loop, and so does the run on every other point
  in exact arithmetic; in no arithmetic does \<open>J\<close> reach its \<open>return\<close> without such a
  read or an \<open>exit\<close>.  A machine that answers the reads of \<open>rhp\<close>, \<open>cthp\<close> and \<open>sthp\<close> at
  the index \<open>32\<close>, and no other read past an end, lets \<open>J\<close> return: every other index
  is inside its array.
\<close>

theorem J_reads_past_the_end:
  "J RL strict (startup RL) 5 1 = Inl (OutOfBounds A_rhp 32) \<and>
   J RL strict G p q = Inl (OutOfBounds A_rhp 32) \<and>
   isl (J L strict H x y) \<and>
   (\<exists>P Q. J RL (\<lambda>a i. if (a = A_rhp \<or> a = A_cthp \<or> a = A_sthp) \<and> i = 32 then Some v
                        else None) (startup RL) 5 1 = Inr (P, Q))"
proof (intro conjI)
  show "J RL strict (startup RL) 5 1 = Inl (OutOfBounds A_rhp 32)" by (rule J_RL_strict)
  show "J RL strict G p q = Inl (OutOfBounds A_rhp 32)" by (rule J_RL_strict)
  show "isl (J L strict H x y)" by (rule J_strict_never_returns)
  show "\<exists>P Q. J RL (\<lambda>a i. if (a = A_rhp \<or> a = A_cthp \<or> a = A_sthp) \<and> i = 32 then Some v
                        else None) (startup RL) 5 1 = Inr (P, Q)"
    using J_RL_memory [where M = "\<lambda>a i. if (a = A_rhp \<or> a = A_cthp \<or> a = A_sthp) \<and> i = 32
                                       then Some v else None"
        and xr = v and xc = v and xs = v and p = 5 and q = 1 and G = "startup RL"]
    by auto
qed




end
